theory Spec2Isabelle
  imports Main "HOL-Library.Word"
begin

section \<open>The data of mod\_evasive24.c\<close>

text \<open>
  \<^verbatim>\<open>size_t\<close> is the 64-bit unsigned type of the platforms the module is built for;
  \<^verbatim>\<open>time_t\<close> is a signed count of seconds. Differences of two readings of the clock do not
  overflow, so timestamps are mathematical integers. The \<^verbatim>\<open>int\<close> fields of the
  configuration are only compared (after promotion to \<^verbatim>\<open>time_t\<close>), never computed with, and
  are integers as well. A C string is the list of its characters before the terminating NUL.
\<close>

type_synonym size_t = "64 word"
type_synonym time_t = int

text \<open>\<^verbatim>\<open>struct ntt_node\<close>. The \<^verbatim>\<open>next\<close> pointer is the position in the chain: a bucket's
  chain is the list of its nodes, in the order in which \<^verbatim>\<open>next\<close> links them.\<close>

record ntt_node =
  node_key :: string
  node_timestamp :: time_t
  node_count :: size_t

text \<open>\<^verbatim>\<open>struct ntt\<close>: \<^verbatim>\<open>tbl\<close> is the array of \<^verbatim>\<open>size\<close> chain heads.\<close>

record ntt =
  ntt_size :: size_t
  ntt_items :: size_t
  ntt_tbl :: "ntt_node list list"

text \<open>A \<^verbatim>\<open>struct ntt_node *\<close> that is not NULL names a node of the table: the bucket and the
  position in that bucket's chain. NULL is \<open>None\<close>.\<close>

type_synonym ntt_ptr = "nat \<times> nat"

definition node_at :: "ntt \<Rightarrow> ntt_ptr \<Rightarrow> ntt_node" where
  "node_at ntt n = ntt_tbl ntt ! fst n ! snd n"

text \<open>An assignment through a node pointer, \<^verbatim>\<open>n->field = ...\<close>.\<close>

definition node_update :: "ntt_ptr \<Rightarrow> (ntt_node \<Rightarrow> ntt_node) \<Rightarrow> ntt \<Rightarrow> ntt" where
  "node_update n f ntt =
     ntt\<lparr>ntt_tbl := (ntt_tbl ntt)[fst n := (ntt_tbl ntt ! fst n)[snd n := f (node_at ntt n)]]\<rparr>"

text \<open>A compiled pattern of the URI whitelist is what \<^verbatim>\<open>pcre2_match\<close> returns for it on a
  subject from offset 0: a value \<open>\<ge> 0\<close> is a match. \<^verbatim>\<open>struct pcre_node\<close> chains are lists.\<close>

type_synonym pcre2_code = "string \<Rightarrow> int"

text \<open>\<^verbatim>\<open>evasive_config\<close>, without the three strings that only the notification uses
  (\<^verbatim>\<open>email_notify\<close>, \<^verbatim>\<open>log_dir\<close>, \<^verbatim>\<open>system_command\<close>).\<close>

record evasive_config =
  enabled :: int
  hit_list :: "ntt option"
  hash_table_size :: size_t
  uri_whitelist :: "pcre2_code list"
  page_count :: "32 word"
  page_interval :: int
  site_count :: "32 word"
  site_interval :: int
  blocking_period :: int
  http_reply :: int

text \<open>What \<^verbatim>\<open>access_checker\<close> reads of \<^verbatim>\<open>request_rec\<close>.\<close>

record request_rec =
  useragent_ip :: string
  uri :: string
  prev_is_null :: bool
  main_is_null :: bool

text \<open>What one call of \<^verbatim>\<open>access_checker\<close> gets from the system: the clock, and whether each
  allocation succeeds: the \<^verbatim>\<open>strdup\<close> of \<^verbatim>\<open>is_whitelisted\<close>, the match data of the
  \<open>i\<close>-th pattern of the URI whitelist, and \<^verbatim>\<open>ntt_node_create\<close> in the \<^verbatim>\<open>ntt_insert\<close> of the
  per-page block and of the per-site block (each block calls \<^verbatim>\<open>ntt_insert\<close> once).\<close>

record sys_env =
  now :: time_t
  strdup_ok :: bool
  match_data_ok :: "nat \<Rightarrow> bool"
  page_node_ok :: bool
  site_node_ok :: bool

text \<open>The two status values of Apache's \<^verbatim>\<open>httpd.h\<close> that the module names.\<close>

definition OK :: int where
  "OK = 0"

definition HTTP_FORBIDDEN :: int where
  "HTTP_FORBIDDEN = 403"

definition SIZE_MAX :: size_t where
  "SIZE_MAX = - 1"

section \<open>NTT: the named timestamp table\<close>

definition ntt_num_primes :: nat where
  "ntt_num_primes = 28"

definition ntt_prime_list :: "size_t list" where
  "ntt_prime_list =
    [53, 97, 193, 389, 769,
     1543, 3079, 6151, 12289, 24593,
     49157, 98317, 196613, 393241, 786433,
     1572869, 3145739, 6291469, 12582917, 25165843,
     50331653, 100663319, 201326611, 402653189, 805306457,
     1610612741, 3221225473, 4294967291]"

text \<open>The value of \<^verbatim>\<open>*key\<close> in \<^verbatim>\<open>5 * val + *key\<close>: plain \<^verbatim>\<open>char\<close> is signed there, so a byte
  above 127 is negative and wraps around when converted to \<^verbatim>\<open>size_t\<close>.\<close>

definition char_to_size_t :: "char \<Rightarrow> size_t" where
  "char_to_size_t c =
     (if (of_char c :: nat) < 128 then of_nat (of_char c) else of_nat (of_char c) - 256)"

fun hash_loop :: "size_t \<Rightarrow> string \<Rightarrow> size_t" where
  "hash_loop val [] = val"
| "hash_loop val (c # cs) = hash_loop (5 * val + char_to_size_t c) cs"

definition ntt_hashcode :: "ntt \<Rightarrow> string \<Rightarrow> nat" where
  "ntt_hashcode ntt key = unat (hash_loop 0 key mod ntt_size ntt)"

definition ntt_node_create :: "bool \<Rightarrow> string \<Rightarrow> time_t \<Rightarrow> ntt_node option" where
  "ntt_node_create alloc_ok key t =
     (if alloc_ok then Some \<lparr>node_key = key, node_timestamp = t, node_count = 0\<rparr> else None)"

text \<open>The loop of \<^verbatim>\<open>ntt_create\<close>:
  \<^verbatim>\<open>while (i < (ntt_num_primes - 1) && ntt_prime_list[i] < size) { i++; }\<close>\<close>

function create_loop :: "nat \<Rightarrow> size_t \<Rightarrow> nat" where
  "create_loop i sz =
     (if i < ntt_num_primes - 1 \<and> ntt_prime_list ! i < sz then create_loop (Suc i) sz else i)"
  by pat_completeness auto
termination
  by (relation "measure (\<lambda>(i, sz). ntt_num_primes - 1 - i)") auto

declare create_loop.simps [simp del]

definition ntt_create :: "bool \<Rightarrow> bool \<Rightarrow> size_t \<Rightarrow> ntt option" where
  "ntt_create malloc_ok calloc_ok sz =
     (if \<not> malloc_ok then None
      else let i = create_loop 0 sz;
               n = ntt_prime_list ! i
           in if \<not> calloc_ok then None
              else Some \<lparr>ntt_size = n, ntt_items = 0, ntt_tbl = replicate (unat n) []\<rparr>)"

text \<open>The loop of \<^verbatim>\<open>ntt_find\<close> over one chain: the position of the first node with the key.\<close>

fun find_loop :: "string \<Rightarrow> ntt_node list \<Rightarrow> nat \<Rightarrow> nat option" where
  "find_loop key [] i = None"
| "find_loop key (n # ns) i =
     (if key = node_key n then Some i else find_loop key ns (Suc i))"

definition ntt_find_in :: "ntt \<Rightarrow> string \<Rightarrow> ntt_ptr option" where
  "ntt_find_in ntt key =
     (let hash_code = ntt_hashcode ntt key
      in case find_loop key (ntt_tbl ntt ! hash_code) 0 of
           None \<Rightarrow> None
         | Some i \<Rightarrow> Some (hash_code, i))"

fun ntt_find :: "ntt option \<Rightarrow> string \<Rightarrow> ntt_ptr option" where
  "ntt_find None key = None"
| "ntt_find (Some ntt) key = ntt_find_in ntt key"

text \<open>The loop that \<^verbatim>\<open>ntt_insert\<close> and \<^verbatim>\<open>ntt_delete\<close> share: it walks the chain and returns
  the position of the first node with the key (\<^verbatim>\<open>new_node\<close>, \<^verbatim>\<open>del_node\<close>) and the position
  of \<^verbatim>\<open>parent\<close>, the last node it stepped over.\<close>

fun walk_loop :: "string \<Rightarrow> ntt_node list \<Rightarrow> nat \<Rightarrow> nat option \<Rightarrow> nat option \<times> nat option" where
  "walk_loop key [] i parent = (None, parent)"
| "walk_loop key (n # ns) i parent =
     (if key = node_key n then (Some i, parent) else walk_loop key ns (Suc i) (Some i))"

text \<open>What hangs off a \<^verbatim>\<open>next\<close> pointer (or a chain head) that is set to \<^verbatim>\<open>new_node\<close>.\<close>

fun linked :: "ntt_node option \<Rightarrow> ntt_node list" where
  "linked None = []"
| "linked (Some n) = [n]"

definition ntt_insert_in :: "bool \<Rightarrow> ntt \<Rightarrow> string \<Rightarrow> time_t \<Rightarrow> ntt_ptr option \<times> ntt" where
  "ntt_insert_in alloc_ok ntt key t =
     (if ntt_items ntt = SIZE_MAX then (None, ntt)
      else
        let hash_code = ntt_hashcode ntt key;
            chain = ntt_tbl ntt ! hash_code
        in case walk_loop key chain 0 None of
             (Some i, parent) \<Rightarrow>
               (Some (hash_code, i),
                node_update (hash_code, i) (\<lambda>n. n\<lparr>node_timestamp := t, node_count := 0\<rparr>) ntt)
           | (None, parent) \<Rightarrow>
               let new_node = ntt_node_create alloc_ok key t;
                   items' = ntt_items ntt + 1
               in (case parent of
                     Some p \<Rightarrow>
                       (map_option (\<lambda>n. (hash_code, Suc p)) new_node,
                        ntt\<lparr>ntt_items := items',
                            ntt_tbl := (ntt_tbl ntt)[hash_code := take (Suc p) chain @ linked new_node]\<rparr>)
                   | None \<Rightarrow>
                       (map_option (\<lambda>n. (hash_code, 0)) new_node,
                        ntt\<lparr>ntt_items := items',
                            ntt_tbl := (ntt_tbl ntt)[hash_code := linked new_node]\<rparr>)))"

fun ntt_insert :: "bool \<Rightarrow> ntt option \<Rightarrow> string \<Rightarrow> time_t \<Rightarrow> ntt_ptr option \<times> ntt option" where
  "ntt_insert alloc_ok None key t = (None, None)"
| "ntt_insert alloc_ok (Some ntt) key t =
     (case ntt_insert_in alloc_ok ntt key t of (n, ntt') \<Rightarrow> (n, Some ntt'))"

definition ntt_delete_in :: "ntt \<Rightarrow> string \<Rightarrow> int \<times> ntt" where
  "ntt_delete_in ntt key =
     (let hash_code = ntt_hashcode ntt key;
          chain = ntt_tbl ntt ! hash_code
      in case walk_loop key chain 0 None of
           (Some d, parent) \<Rightarrow>
             (0, ntt\<lparr>ntt_tbl := (ntt_tbl ntt)[hash_code :=
                        (case parent of
                           Some p \<Rightarrow> take (Suc p) chain @ drop (Suc d) chain
                         | None \<Rightarrow> drop (Suc d) chain)],
                     ntt_items := ntt_items ntt - 1\<rparr>)
         | (None, parent) \<Rightarrow> (- 5, ntt))"

fun ntt_delete :: "ntt option \<Rightarrow> string \<Rightarrow> int \<times> ntt option" where
  "ntt_delete None key = (- 1, None)"
| "ntt_delete (Some ntt) key =
     (case ntt_delete_in ntt key of (rc, ntt') \<Rightarrow> (rc, Some ntt'))"

section \<open>The whitelists\<close>

text \<open>\<^verbatim>\<open>snprintf(buf, n, ...)\<close> keeps the first \<open>n - 1\<close> characters of the formatted text.\<close>

definition snprintf :: "nat \<Rightarrow> string \<Rightarrow> string" where
  "snprintf n s = take (n - 1) s"

text \<open>The tokens that successive calls of \<^verbatim>\<open>strtok(_, ".")\<close> return: the maximal runs of
  characters other than the dot, none of them empty. \<open>cur\<close> is the token being read.\<close>

fun strtok_dot :: "string \<Rightarrow> string \<Rightarrow> string list" where
  "strtok_dot cur [] = (if cur = [] then [] else [cur])"
| "strtok_dot cur (c # cs) =
     (if c = CHR ''.''
      then (if cur = [] then strtok_dot [] cs else cur # strtok_dot [] cs)
      else strtok_dot (cur @ [c]) cs)"

text \<open>\<^verbatim>\<open>octet[i]\<close> after the loop of \<^verbatim>\<open>is_whitelisted\<close>: the \<open>i\<close>-th token when there is one
  of at most three characters, and the empty string that \<^verbatim>\<open>memset\<close> left otherwise.\<close>

definition octet :: "string \<Rightarrow> nat \<Rightarrow> string" where
  "octet ip i =
     (let toks = strtok_dot [] ip
      in if i < length toks \<and> i < 4 \<and> length (toks ! i) \<le> 3 then toks ! i else [])"

definition whitelist_keys :: "string \<Rightarrow> string list" where
  "whitelist_keys ip =
     [snprintf 128 (''WHITELIST_'' @ ip),
      snprintf 128 (''WHITELIST_'' @ octet ip 0 @ ''.*.*.*''),
      snprintf 128 (''WHITELIST_'' @ octet ip 0 @ ''.'' @ octet ip 1 @ ''.*.*''),
      snprintf 128 (''WHITELIST_'' @ octet ip 0 @ ''.'' @ octet ip 1 @ ''.'' @ octet ip 2 @ ''.*'')]"

definition is_whitelisted :: "bool \<Rightarrow> string \<Rightarrow> evasive_config \<Rightarrow> bool" where
  "is_whitelisted dip_ok ip cfg =
     (if \<not> dip_ok then False
      else if ntt_find (hit_list cfg) (whitelist_keys ip ! 0) \<noteq> None then True
      else if ntt_find (hit_list cfg) (whitelist_keys ip ! 1) \<noteq> None then True
      else if ntt_find (hit_list cfg) (whitelist_keys ip ! 2) \<noteq> None then True
      else if ntt_find (hit_list cfg) (whitelist_keys ip ! 3) \<noteq> None then True
      else False)"

text \<open>The loop of \<^verbatim>\<open>is_uri_whitelisted\<close>; \<open>i\<close> counts the patterns passed.\<close>

fun uri_loop :: "(nat \<Rightarrow> bool) \<Rightarrow> nat \<Rightarrow> pcre2_code list \<Rightarrow> string \<Rightarrow> bool" where
  "uri_loop md_ok i [] subject = False"
| "uri_loop md_ok i (re # nodes) subject =
     (if \<not> md_ok i then uri_loop md_ok (Suc i) nodes subject
      else if re subject \<ge> 0 then True
      else uri_loop md_ok (Suc i) nodes subject)"

definition is_uri_whitelisted :: "(nat \<Rightarrow> bool) \<Rightarrow> string \<Rightarrow> evasive_config \<Rightarrow> bool" where
  "is_uri_whitelisted md_ok u cfg = uri_loop md_ok 0 (uri_whitelist cfg) u"

text \<open>The directive \<^verbatim>\<open>DOSWhitelist\<close>.\<close>

definition whitelist :: "bool \<Rightarrow> time_t \<Rightarrow> evasive_config \<Rightarrow> string \<Rightarrow> evasive_config" where
  "whitelist alloc_ok t cfg ip =
     cfg\<lparr>hit_list := snd (ntt_insert alloc_ok (hit_list cfg) (snprintf 128 (''WHITELIST_'' @ ip)) t)\<rparr>"

section \<open>The access checker\<close>

text \<open>
  The per-page block and the per-site block of \<^verbatim>\<open>access_checker\<close> are the same code, on
  another key, interval and count; \<open>hit_check\<close> is that block. \<open>ret\<close> is the verdict so far.
  The table is not NULL there, so the calls go to the bodies of \<^verbatim>\<open>ntt_find\<close> and
  \<^verbatim>\<open>ntt_insert\<close>. The pointer \<open>n\<close> is read again after \<^verbatim>\<open>ntt_insert\<close> has run, as
  \<^verbatim>\<open>n->count++\<close> does.
\<close>

definition hit_check ::
  "bool \<Rightarrow> string \<Rightarrow> string \<Rightarrow> int \<Rightarrow> 32 word \<Rightarrow> time_t \<Rightarrow> int \<Rightarrow> int \<times> ntt \<Rightarrow> int \<times> ntt" where
  "hit_check alloc_ok ip hash_key interval cnt t reply st =
     (case st of (ret, ntt) \<Rightarrow>
        (case ntt_find_in ntt hash_key of
           Some n \<Rightarrow>
             (let (ret1, ntt1) =
                    (if t - node_timestamp (node_at ntt n) < interval
                        \<and> node_count (node_at ntt n) \<ge> ucast cnt
                     then (reply, snd (ntt_insert_in alloc_ok ntt ip t))
                     else if t - node_timestamp (node_at ntt n) \<ge> interval
                          then (ret, node_update n (\<lambda>x. x\<lparr>node_count := 0\<rparr>) ntt)
                          else (ret, ntt));
                  ntt2 = node_update n (\<lambda>x. x\<lparr>node_timestamp := t\<rparr>) ntt1;
                  ntt3 = node_update n (\<lambda>x. x\<lparr>node_count := node_count x + 1\<rparr>) ntt2
              in (ret1, ntt3))
         | None \<Rightarrow> (ret, snd (ntt_insert_in alloc_ok ntt hash_key t))))"

definition page_key :: "request_rec \<Rightarrow> string" where
  "page_key r = snprintf 2048 (useragent_ip r @ ''_'' @ uri r)"

definition site_key :: "request_rec \<Rightarrow> string" where
  "site_key r = snprintf 2048 (useragent_ip r @ ''_SITE'')"

text \<open>The test \<^verbatim>\<open>n != NULL && t-n->timestamp<cfg->blocking_period\<close> on the entry of the bare
  address: the pointer when the address is on hold.\<close>

definition on_hold :: "ntt \<Rightarrow> string \<Rightarrow> time_t \<Rightarrow> int \<Rightarrow> ntt_ptr option" where
  "on_hold ntt ip t period =
     (case ntt_find_in ntt ip of
        None \<Rightarrow> None
      | Some n \<Rightarrow> if t - node_timestamp (node_at ntt n) < period then Some n else None)"

text \<open>The \<^verbatim>\<open>else\<close> branch of the hold test ("Not on hold, check hit stats"): the URI
  whitelist, then the per-page block, then the per-site block on the table the per-page block
  left.\<close>

definition hit_stats :: "sys_env \<Rightarrow> evasive_config \<Rightarrow> request_rec \<Rightarrow> ntt \<Rightarrow> int \<times> evasive_config" where
  "hit_stats env cfg r ntt =
     (if is_uri_whitelisted (match_data_ok env) (uri r) cfg then (OK, cfg)
      else
        (case hit_check (site_node_ok env) (useragent_ip r) (site_key r)
                (site_interval cfg) (site_count cfg) (now env) (http_reply cfg)
                (hit_check (page_node_ok env) (useragent_ip r) (page_key r)
                   (page_interval cfg) (page_count cfg) (now env) (http_reply cfg)
                   (OK, ntt)) of
           (ret, ntt') \<Rightarrow> (ret, cfg\<lparr>hit_list := Some ntt'\<rparr>)))"

text \<open>
  \<^verbatim>\<open>access_checker\<close>: the value returned and the configuration with the table as the call
  leaves it. The notification block (marker file, syslog, mail, system command) and the final
  log line change neither and are left out.
\<close>

definition access_checker :: "sys_env \<Rightarrow> evasive_config \<Rightarrow> request_rec \<Rightarrow> int \<times> evasive_config" where
  "access_checker env cfg r =
     (if enabled cfg \<noteq> 0 \<and> prev_is_null r \<and> main_is_null r
      then
        (case hit_list cfg of
           None \<Rightarrow> (OK, cfg)
         | Some ntt \<Rightarrow>
             if is_whitelisted (strdup_ok env) (useragent_ip r) cfg then (OK, cfg)
             else
               (case on_hold ntt (useragent_ip r) (now env) (blocking_period cfg) of
                  Some n \<Rightarrow>
                    (http_reply cfg,
                     cfg\<lparr>hit_list := Some (node_update n (\<lambda>x. x\<lparr>node_timestamp := now env\<rparr>) ntt)\<rparr>)
                | None \<Rightarrow> hit_stats env cfg r ntt))
      else (OK, cfg))"

text \<open>A run of requests against one configuration: the verdicts in order, and the
  configuration left behind.\<close>

fun serve :: "evasive_config \<Rightarrow> (sys_env \<times> request_rec) list \<Rightarrow> int list \<times> evasive_config" where
  "serve cfg [] = ([], cfg)"
| "serve cfg ((env, r) # rs) =
     (case access_checker env cfg r of
        (ret, cfg') \<Rightarrow> (case serve cfg' rs of (rets, cfg'') \<Rightarrow> (ret # rets, cfg'')))"


text \<open>Timestamps of which each is less than \<open>period\<close> after the one before it, the first
  after \<open>prev\<close>.\<close>

fun within_hold :: "int \<Rightarrow> time_t \<Rightarrow> time_t list \<Rightarrow> bool" where
  "within_hold period prev [] = True"
| "within_hold period prev (t # ts) = (t - prev < period \<and> within_hold period t ts)"

section \<open>Properties of tables\<close>

text \<open>A table as \<^verbatim>\<open>ntt_create\<close> allocates it: \<^verbatim>\<open>tbl\<close> has \<^verbatim>\<open>size\<close> chain heads, and
  \<^verbatim>\<open>size\<close> is not 0.\<close>

definition ntt_wf :: "ntt \<Rightarrow> bool" where
  "ntt_wf ntt \<longleftrightarrow> ntt_size ntt \<noteq> 0 \<and> length (ntt_tbl ntt) = unat (ntt_size ntt)"

text \<open>A pointer that points to a node of the table.\<close>

definition valid_ptr :: "ntt \<Rightarrow> ntt_ptr \<Rightarrow> bool" where
  "valid_ptr ntt n \<longleftrightarrow> fst n < length (ntt_tbl ntt) \<and> snd n < length (ntt_tbl ntt ! fst n)"

text \<open>The node that \<^verbatim>\<open>ntt_find\<close> returns for a key, read through the pointer.\<close>

definition ntt_lookup :: "ntt \<Rightarrow> string \<Rightarrow> ntt_node option" where
  "ntt_lookup ntt key = map_option (node_at ntt) (ntt_find_in ntt key)"

text \<open>The invariant of the chains: every node hangs in the bucket of its key's hash code, and
  no chain holds a key twice.\<close>

definition chain_inv :: "ntt \<Rightarrow> nat \<Rightarrow> bool" where
  "chain_inv ntt h \<longleftrightarrow>
     (\<forall>k \<in> set (map node_key (ntt_tbl ntt ! h)). ntt_hashcode ntt k = h)
     \<and> distinct (map node_key (ntt_tbl ntt ! h))"

definition ntt_inv :: "ntt \<Rightarrow> bool" where
  "ntt_inv ntt \<longleftrightarrow> ntt_wf ntt \<and> (\<forall>h \<in> {..<length (ntt_tbl ntt)}. chain_inv ntt h)"

text \<open>The number of nodes that the chains hold.\<close>

definition entry_count :: "ntt \<Rightarrow> nat" where
  "entry_count ntt = sum_list (map length (ntt_tbl ntt))"

section \<open>Example tables\<close>

text \<open>The table that \<^verbatim>\<open>ntt_create\<close> returns for the capacity hint 50.\<close>

definition empty_ntt :: ntt where
  "empty_ntt = \<lparr>ntt_size = 53, ntt_items = 0, ntt_tbl = replicate 53 []\<rparr>"

text \<open>A table of 53 buckets with one node. The keys \<open>'',''\<close> and \<open>''a''\<close> (the bytes 44 and
  97) both have the hash code 44.\<close>

definition comma_node :: ntt_node where
  "comma_node = \<lparr>node_key = '','', node_timestamp = 0, node_count = 0\<rparr>"

definition ex_ntt :: ntt where
  "ex_ntt = \<lparr>ntt_size = 53, ntt_items = 1, ntt_tbl = (replicate 53 [])[44 := [comma_node]]\<rparr>"

text \<open>A table whose item count is at its maximum.\<close>

definition full_ntt :: ntt where
  "full_ntt = \<lparr>ntt_size = 53, ntt_items = SIZE_MAX, ntt_tbl = replicate 53 []\<rparr>"

section \<open>Example configurations\<close>

text \<open>The scenario of the specification: a page count of 2 and a page interval of 1, the
  other settings at the defaults of \<^verbatim>\<open>create_dir_conf\<close> (a blocking period of 10 as
  \<^verbatim>\<open>DOSBlockingPeriod\<close> would set it), on the table that the capacity hint 50 gives; a
  top-level request for \<open>/x\<close> from \<open>1.2.3.4\<close>; a system where every allocation succeeds.\<close>

definition ex_cfg :: "ntt option \<Rightarrow> evasive_config" where
  "ex_cfg tbl = \<lparr>enabled = 1, hit_list = tbl, hash_table_size = 50, uri_whitelist = [],
     page_count = 2, page_interval = 1, site_count = 50, site_interval = 1,
     blocking_period = 10, http_reply = HTTP_FORBIDDEN\<rparr>"

definition ex_req :: request_rec where
  "ex_req = \<lparr>useragent_ip = ''1.2.3.4'', uri = ''/x'', prev_is_null = True, main_is_null = True\<rparr>"

definition ex_env :: "time_t \<Rightarrow> sys_env" where
  "ex_env t = \<lparr>now = t, strdup_ok = True, match_data_ok = (\<lambda>i. True),
     page_node_ok = True, site_node_ok = True\<rparr>"


text \<open>A system where only the \<^verbatim>\<open>strdup\<close> of \<^verbatim>\<open>is_whitelisted\<close> fails, and one where only
  the match data of the URI patterns cannot be allocated.\<close>

definition no_strdup_env :: "time_t \<Rightarrow> sys_env" where
  "no_strdup_env t = \<lparr>now = t, strdup_ok = False, match_data_ok = (\<lambda>i. True),
     page_node_ok = True, site_node_ok = True\<rparr>"

definition no_match_data_env :: "time_t \<Rightarrow> sys_env" where
  "no_match_data_env t = \<lparr>now = t, strdup_ok = True, match_data_ok = (\<lambda>i. False),
     page_node_ok = True, site_node_ok = True\<rparr>"

text \<open>The example configuration after the directive \<^verbatim>\<open>DOSWhitelist 1.2.*.*\<close>.\<close>

definition wl_cfg :: evasive_config where
  "wl_cfg = whitelist True 0 (ex_cfg (ntt_create True True 50)) ''1.2.*.*''"

text \<open>A 53-bucket table in which the address \<open>1.2.3.4\<close> was put on hold at time 0, and
  the one that two requests of the example at time 0 leave, where the address is not on hold. The keys \<open>1.2.3.4\<close>,
  \<open>1.2.3.4_/x\<close> and \<open>1.2.3.4_SITE\<close> have the hash codes 27, 10 and 36.\<close>

definition held_ntt :: ntt where
  "held_ntt = \<lparr>ntt_size = 53, ntt_items = 1,
     ntt_tbl = (replicate 53 [])
       [27 := [\<lparr>node_key = ''1.2.3.4'', node_timestamp = 0, node_count = 0\<rparr>]]\<rparr>"

definition seen_ntt :: ntt where
  "seen_ntt = \<lparr>ntt_size = 53, ntt_items = 2,
     ntt_tbl = (replicate 53 [])
       [10 := [\<lparr>node_key = ''1.2.3.4_/x'', node_timestamp = 0, node_count = 1\<rparr>],
        36 := [\<lparr>node_key = ''1.2.3.4_SITE'', node_timestamp = 0, node_count = 1\<rparr>]]\<rparr>"

text \<open>A compiled pattern that matches the path \<open>/x\<close> only (\<open>- 1\<close> is
  \<^verbatim>\<open>PCRE2_ERROR_NOMATCH\<close>), and the example configuration with it on the URI whitelist.\<close>

definition re_x :: pcre2_code where
  "re_x subject = (if subject = ''/x'' then 0 else - 1)"

definition uri_cfg :: "ntt option \<Rightarrow> evasive_config" where
  "uri_cfg tbl = (ex_cfg tbl)\<lparr>uri_whitelist := [re_x]\<rparr>"

text \<open>A table on the edge of all three windows of the example configuration for a request at
  time 10: the hold of \<open>1.2.3.4\<close> dates from time 0, its page and site entries from time 9,
  with counts above both thresholds.\<close>

definition edge_ntt :: ntt where
  "edge_ntt = \<lparr>ntt_size = 53, ntt_items = 3,
     ntt_tbl = (replicate 53 [])
       [27 := [\<lparr>node_key = ''1.2.3.4'', node_timestamp = 0, node_count = 0\<rparr>],
        10 := [\<lparr>node_key = ''1.2.3.4_/x'', node_timestamp = 9, node_count = 5\<rparr>],
        36 := [\<lparr>node_key = ''1.2.3.4_SITE'', node_timestamp = 9, node_count = 70\<rparr>]]\<rparr>"

section \<open>Lemmas about the table\<close>

subsection \<open>The loops over a chain\<close>


lemma hashcode_less: "ntt_wf ntt \<Longrightarrow> ntt_hashcode ntt key < length (ntt_tbl ntt)"
  by (simp add: ntt_wf_def ntt_hashcode_def unat_mod unat_gt_0)

lemma find_loop_Some:
  "find_loop key chain i = Some j \<Longrightarrow>
     i \<le> j \<and> j - i < length chain \<and> node_key (chain ! (j - i)) = key
     \<and> (\<forall>k < j - i. node_key (chain ! k) \<noteq> key)"
proof (induction chain arbitrary: i)
  case Nil
  then show ?case by simp
next
  case (Cons n ns)
  show ?case
  proof (cases "key = node_key n")
    case True
    with Cons.prems show ?thesis by simp
  next
    case False
    with Cons.prems have rec: "find_loop key ns (Suc i) = Some j" by simp
    from Cons.IH [OF rec] have a: "Suc i \<le> j" and b: "j - Suc i < length ns"
      and c: "node_key (ns ! (j - Suc i)) = key"
      and d: "\<forall>k < j - Suc i. node_key (ns ! k) \<noteq> key" by auto
    from a have e: "j - i = Suc (j - Suc i)" by simp
    have "\<forall>k < j - i. node_key ((n # ns) ! k) \<noteq> key"
    proof (intro allI impI)
      fix k assume "k < j - i"
      then show "node_key ((n # ns) ! k) \<noteq> key"
        using False d e by (cases k) auto
    qed
    then show ?thesis using a b c e by simp
  qed
qed

lemma find_loop_None: "find_loop key chain i = None \<longleftrightarrow> key \<notin> node_key ` set chain"
  by (induction chain arbitrary: i) auto

lemma find_loop_keys:
  "map node_key c1 = map node_key c2 \<Longrightarrow> find_loop key c1 i = find_loop key c2 i"
proof (induction c1 arbitrary: c2 i)
  case Nil
  then show ?case by simp
next
  case (Cons n ns)
  then obtain m ms where c2: "c2 = m # ms" by (cases c2) auto
  with Cons show ?case by auto
qed

lemma find_loop_append:
  "find_loop key (c1 @ c2) i =
     (case find_loop key c1 i of Some j \<Rightarrow> Some j | None \<Rightarrow> find_loop key c2 (i + length c1))"
  by (induction c1 arbitrary: i) (auto split: option.splits)

lemma walk_loop_fst: "fst (walk_loop key chain i parent) = find_loop key chain i"
  by (induction chain arbitrary: i parent) auto

lemma walk_loop_parent_None:
  "find_loop key chain i = None \<Longrightarrow>
     snd (walk_loop key chain i parent) =
       (if chain = [] then parent else Some (i + length chain - 1))"
  by (induction chain arbitrary: i parent) (auto split: if_splits)

lemma walk_loop_parent_Some:
  "find_loop key chain i = Some d \<Longrightarrow>
     snd (walk_loop key chain i parent) = (if d = i then parent else Some (d - 1))"
proof (induction chain arbitrary: i parent)
  case Nil
  then show ?case by simp
next
  case (Cons n ns)
  show ?case
  proof (cases "key = node_key n")
    case True
    with Cons.prems show ?thesis by simp
  next
    case False
    with Cons.prems have rec: "find_loop key ns (Suc i) = Some d" by simp
    from find_loop_Some [OF rec] have "Suc i \<le> d" by simp
    with Cons.IH [OF rec, of "Some i"] False show ?thesis by auto
  qed
qed

subsection \<open>Assignments through a node pointer\<close>


lemma walk_loop_eq:
  "walk_loop key chain i parent = (find_loop key chain i, snd (walk_loop key chain i parent))"
  by (rule prod_eqI) (simp_all add: walk_loop_fst)

lemma node_update_invalid: "\<not> valid_ptr ntt n \<Longrightarrow> node_update n f ntt = ntt"
proof -
  assume "\<not> valid_ptr ntt n"
  then have "(ntt_tbl ntt)[fst n := (ntt_tbl ntt ! fst n)[snd n := f (node_at ntt n)]] = ntt_tbl ntt"
    by (cases "fst n < length (ntt_tbl ntt)") (simp_all add: valid_ptr_def not_less list_update_beyond)
  then show ?thesis by (simp add: node_update_def)
qed

lemma node_update_fields [simp]:
  "ntt_size (node_update n f ntt) = ntt_size ntt"
  "ntt_items (node_update n f ntt) = ntt_items ntt"
  "length (ntt_tbl (node_update n f ntt)) = length (ntt_tbl ntt)"
  by (simp_all add: node_update_def)

lemma hashcode_node_update [simp]:
  "ntt_hashcode (node_update n f ntt) key = ntt_hashcode ntt key"
  by (simp add: ntt_hashcode_def)

lemma wf_node_update [simp]: "ntt_wf (node_update n f ntt) = ntt_wf ntt"
  by (simp add: ntt_wf_def)

lemma chain_node_update:
  "ntt_tbl (node_update n f ntt) ! h =
     (if h = fst n \<and> valid_ptr ntt n then (ntt_tbl ntt ! h)[snd n := f (node_at ntt n)]
      else ntt_tbl ntt ! h)"
proof (cases "valid_ptr ntt n")
  case True
  then show ?thesis
    by (auto simp: node_update_def valid_ptr_def nth_list_update)
next
  case False
  then show ?thesis by (simp add: node_update_invalid)
qed

lemma valid_ptr_node_update [simp]: "valid_ptr (node_update n f ntt) m = valid_ptr ntt m"
  by (simp add: valid_ptr_def chain_node_update)

lemma node_at_node_update:
  "node_at (node_update n f ntt) m =
     (if m = n \<and> valid_ptr ntt n then f (node_at ntt n) else node_at ntt m)"
proof -
  have "node_at (node_update n f ntt) m = ntt_tbl (node_update n f ntt) ! fst m ! snd m"
    by (simp add: node_at_def)
  also have "\<dots> = (if m = n \<and> valid_ptr ntt n then f (node_at ntt n) else node_at ntt m)"
    by (auto simp: chain_node_update node_at_def valid_ptr_def nth_list_update prod_eq_iff)
  finally show ?thesis .
qed

lemma node_update_comp:
  "node_update n f (node_update n g ntt) = node_update n (\<lambda>x. f (g x)) ntt"
proof (cases "valid_ptr ntt n")
  case True
  then show ?thesis
    by (simp add: node_update_def node_at_def valid_ptr_def)
next
  case False
  then show ?thesis by (simp add: node_update_invalid)
qed

lemma keys_node_update:
  assumes "\<And>x. node_key (f x) = node_key x"
  shows "map node_key (ntt_tbl (node_update n f ntt) ! h) = map node_key (ntt_tbl ntt ! h)"
proof (cases "h = fst n \<and> valid_ptr ntt n")
  case True
  then have "map node_key ((ntt_tbl ntt ! h)[snd n := f (node_at ntt n)]) =
             (map node_key (ntt_tbl ntt ! h))[snd n := node_key (node_at ntt n)]"
    by (simp add: map_update assms)
  also have "\<dots> = map node_key (ntt_tbl ntt ! h)"
    using True by (simp add: node_at_def valid_ptr_def list_update_same_conv)
  finally show ?thesis using True by (simp add: chain_node_update)
next
  case False
  then show ?thesis by (auto simp: chain_node_update)
qed

lemma find_in_node_update:
  assumes "\<And>x. node_key (f x) = node_key x"
  shows "ntt_find_in (node_update n f ntt) key = ntt_find_in ntt key"
  using find_loop_keys [OF keys_node_update [of f n ntt "ntt_hashcode ntt key"], of key 0] assms
  by (simp add: ntt_find_in_def)

lemma find_in_valid:
  assumes "ntt_wf ntt" and "ntt_find_in ntt key = Some n"
  shows "valid_ptr ntt n" and "node_key (node_at ntt n) = key" and "fst n = ntt_hashcode ntt key"
proof -
  from assms(2) obtain i where
    i: "find_loop key (ntt_tbl ntt ! ntt_hashcode ntt key) 0 = Some i"
    and n: "n = (ntt_hashcode ntt key, i)"
    by (auto simp: ntt_find_in_def Let_def split: option.splits)
  from find_loop_Some [OF i] hashcode_less [OF assms(1), of key] n
  show "valid_ptr ntt n" and "node_key (node_at ntt n) = key" and "fst n = ntt_hashcode ntt key"
    by (simp_all add: valid_ptr_def node_at_def)
qed

lemma lookup_node_update:
  assumes wf: "ntt_wf ntt" and n: "ntt_find_in ntt key = Some n"
    and f: "\<And>x. node_key (f x) = node_key x"
  shows "ntt_lookup (node_update n f ntt) = (ntt_lookup ntt)(key \<mapsto> f (node_at ntt n))"
proof
  fix k
  show "ntt_lookup (node_update n f ntt) k = ((ntt_lookup ntt)(key \<mapsto> f (node_at ntt n))) k"
  proof (cases "k = key")
    case True
    with n find_in_valid(1) [OF wf n] show ?thesis
      by (simp add: ntt_lookup_def find_in_node_update f node_at_node_update)
  next
    case False
    show ?thesis
    proof (cases "ntt_find_in ntt k")
      case None
      with False show ?thesis by (simp add: ntt_lookup_def find_in_node_update f)
    next
      case (Some m)
      from find_in_valid(2) [OF wf Some] find_in_valid(2) [OF wf n] False have "m \<noteq> n" by auto
      with Some False show ?thesis
        by (simp add: ntt_lookup_def find_in_node_update f node_at_node_update)
    qed
  qed
qed

subsection \<open>What \<^verbatim>\<open>ntt_insert\<close> returns\<close>


lemma insert_in_max: "ntt_items ntt = SIZE_MAX \<Longrightarrow> ntt_insert_in a ntt key t = (None, ntt)"
  by (simp add: ntt_insert_in_def)

lemma insert_in_found:
  assumes "ntt_items ntt \<noteq> SIZE_MAX" and "ntt_find_in ntt key = Some n"
  shows "ntt_insert_in a ntt key t =
           (Some n, node_update n (\<lambda>x. x\<lparr>node_timestamp := t, node_count := 0\<rparr>) ntt)"
proof -
  from assms(2) obtain i where
    i: "find_loop key (ntt_tbl ntt ! ntt_hashcode ntt key) 0 = Some i"
    and n: "n = (ntt_hashcode ntt key, i)"
    by (auto simp: ntt_find_in_def Let_def split: option.splits)
  obtain p where "walk_loop key (ntt_tbl ntt ! ntt_hashcode ntt key) 0 None = (Some i, p)"
    using walk_loop_fst [of key "ntt_tbl ntt ! ntt_hashcode ntt key" 0 None] i
    by (cases "walk_loop key (ntt_tbl ntt ! ntt_hashcode ntt key) 0 None") simp
  then show ?thesis using assms(1) n by (simp add: ntt_insert_in_def Let_def)
qed

lemma insert_in_new:
  assumes "ntt_items ntt \<noteq> SIZE_MAX" and "ntt_find_in ntt key = None"
  shows "ntt_insert_in a ntt key t =
           (map_option (\<lambda>x. (ntt_hashcode ntt key, length (ntt_tbl ntt ! ntt_hashcode ntt key)))
              (ntt_node_create a key t),
            ntt\<lparr>ntt_items := ntt_items ntt + 1,
                ntt_tbl := (ntt_tbl ntt)[ntt_hashcode ntt key :=
                   ntt_tbl ntt ! ntt_hashcode ntt key @ linked (ntt_node_create a key t)]\<rparr>)"
proof -
  let ?h = "ntt_hashcode ntt key"
  let ?chain = "ntt_tbl ntt ! ?h"
  from assms(2) have none: "find_loop key ?chain 0 = None"
    by (auto simp: ntt_find_in_def Let_def split: option.splits)
  have walk: "walk_loop key ?chain 0 None =
          (None, if ?chain = [] then None else Some (length ?chain - 1))"
    using walk_loop_eq [of key ?chain 0 None] walk_loop_parent_None [OF none, of None] none
    by simp
  show ?thesis
  proof (cases "?chain = []")
    case True
    with walk assms(1) show ?thesis by (simp add: ntt_insert_in_def Let_def)
  next
    case False
    then have "Suc (length ?chain - 1) = length ?chain" by (cases ?chain) simp_all
    with False walk assms(1) show ?thesis by (simp add: ntt_insert_in_def Let_def)
  qed
qed

lemma wf_insert_in: "ntt_wf ntt \<Longrightarrow> ntt_wf (snd (ntt_insert_in a ntt key t))"
proof (cases "ntt_items ntt = SIZE_MAX")
  case True
  then show "ntt_wf ntt \<Longrightarrow> ?thesis" by (simp add: insert_in_max)
next
  case False
  assume wf: "ntt_wf ntt"
  show ?thesis
  proof (cases "ntt_find_in ntt key")
    case None
    with wf show ?thesis by (simp add: insert_in_new [OF False None] ntt_wf_def)
  next
    case (Some n)
    with wf show ?thesis by (simp add: insert_in_found [OF False Some])
  qed
qed

lemma items_insert_in:
  "ntt_items (snd (ntt_insert_in a ntt key t)) =
     (if ntt_items ntt = SIZE_MAX \<or> ntt_find_in ntt key \<noteq> None then ntt_items ntt
      else ntt_items ntt + 1)"
proof (cases "ntt_items ntt = SIZE_MAX")
  case True
  then show ?thesis by (simp add: insert_in_max)
next
  case False
  then show ?thesis
    by (cases "ntt_find_in ntt key") (simp_all add: insert_in_new insert_in_found)
qed

text \<open>What a lookup sees after a new node has been appended to the chain of its key.\<close>

lemma find_in_appended:
  assumes wf: "ntt_wf ntt" and none: "ntt_find_in ntt key = None"
    and ntt': "ntt' = ntt\<lparr>ntt_items := c,
        ntt_tbl := (ntt_tbl ntt)[ntt_hashcode ntt key := ntt_tbl ntt ! ntt_hashcode ntt key @ [e]]\<rparr>"
    and e: "node_key e = key"
  shows "ntt_find_in ntt' k =
           (if k = key then Some (ntt_hashcode ntt key, length (ntt_tbl ntt ! ntt_hashcode ntt key))
            else ntt_find_in ntt k)"
proof -
  let ?h = "ntt_hashcode ntt key"
  have hk: "ntt_hashcode ntt' k = ntt_hashcode ntt k" for k
    by (simp add: ntt' ntt_hashcode_def)
  from none have nonel: "find_loop key (ntt_tbl ntt ! ?h) 0 = None"
    by (auto simp: ntt_find_in_def Let_def split: option.splits)
  show ?thesis
  proof (cases "ntt_hashcode ntt k = ?h")
    case True
    have "ntt_tbl ntt' ! ?h = ntt_tbl ntt ! ?h @ [e]"
      using hashcode_less [OF wf, of key] by (simp add: ntt')
    with True nonel e show ?thesis
      by (auto simp: ntt_find_in_def Let_def hk find_loop_append split: option.splits)
  next
    case False
    then have "k \<noteq> key" by auto
    moreover have "ntt_tbl ntt' ! ntt_hashcode ntt k = ntt_tbl ntt ! ntt_hashcode ntt k"
      using False by (simp add: ntt')
    ultimately show ?thesis by (simp add: ntt_find_in_def hk)
  qed
qed

lemma node_at_appended:
  assumes wf: "ntt_wf ntt"
    and ntt': "ntt' = ntt\<lparr>ntt_items := c,
        ntt_tbl := (ntt_tbl ntt)[h := ntt_tbl ntt ! h @ [e]]\<rparr>"
    and h: "h < length (ntt_tbl ntt)"
  shows "valid_ptr ntt m \<Longrightarrow> node_at ntt' m = node_at ntt m"
    and "node_at ntt' (h, length (ntt_tbl ntt ! h)) = e"
  using h by (auto simp: ntt' node_at_def valid_ptr_def nth_list_update nth_append)

lemma lookup_insert_in:
  assumes wf: "ntt_wf ntt"
  shows "ntt_lookup (snd (ntt_insert_in a ntt key t)) =
           (if ntt_items ntt = SIZE_MAX \<or> (ntt_lookup ntt key = None \<and> \<not> a) then ntt_lookup ntt
            else (ntt_lookup ntt)(key \<mapsto>
                   \<lparr>node_key = key, node_timestamp = t, node_count = 0\<rparr>))"
proof (cases "ntt_items ntt = SIZE_MAX")
  case True
  then show ?thesis by (simp add: insert_in_max)
next
  case False
  show ?thesis
  proof (cases "ntt_find_in ntt key")
    case (Some n)
    have "node_at ntt n\<lparr>node_timestamp := t, node_count := 0\<rparr> =
            \<lparr>node_key = key, node_timestamp = t, node_count = 0\<rparr>"
      using find_in_valid(2) [OF wf Some] by (cases "node_at ntt n") simp
    with False Some show ?thesis
      by (simp add: insert_in_found [OF False Some] lookup_node_update [OF wf Some] ntt_lookup_def)
  next
    case None
    show ?thesis
    proof (cases a)
      case False
      have "ntt\<lparr>ntt_items := ntt_items ntt + 1, ntt_tbl := ntt_tbl ntt\<rparr> = ntt\<lparr>ntt_items := ntt_items ntt + 1\<rparr>"
        by simp
      moreover have "node_at (ntt\<lparr>ntt_items := c\<rparr>) = node_at ntt" for c
        by (rule ext) (simp add: node_at_def)
      then have "ntt_lookup (ntt\<lparr>ntt_items := c\<rparr>) = ntt_lookup ntt" for c
        by (intro ext) (simp add: ntt_lookup_def ntt_find_in_def ntt_hashcode_def)
      ultimately show ?thesis using False None \<open>ntt_items ntt \<noteq> SIZE_MAX\<close>
        by (simp add: insert_in_new ntt_node_create_def ntt_lookup_def)
    next
      case True
      let ?h = "ntt_hashcode ntt key"
      let ?e = "\<lparr>node_key = key, node_timestamp = t, node_count = 0\<rparr>"
      define ntt' where "ntt' = ntt\<lparr>ntt_items := ntt_items ntt + 1,
          ntt_tbl := (ntt_tbl ntt)[?h := ntt_tbl ntt ! ?h @ [?e]]\<rparr>"
      have ins: "snd (ntt_insert_in a ntt key t) = ntt'"
        using True by (simp add: insert_in_new [OF \<open>ntt_items ntt \<noteq> SIZE_MAX\<close> None]
            ntt_node_create_def ntt'_def)
      have f: "ntt_find_in ntt' k =
           (if k = key then Some (?h, length (ntt_tbl ntt ! ?h)) else ntt_find_in ntt k)" for k
        by (rule find_in_appended [OF wf None ntt'_def]) simp
      have "ntt_lookup ntt' k = ((ntt_lookup ntt)(key \<mapsto> ?e)) k" for k
      proof (cases "k = key")
        case True
        then show ?thesis
          using node_at_appended(2) [OF wf ntt'_def hashcode_less [OF wf]]
          by (simp add: ntt_lookup_def f)
      next
        case False
        show ?thesis
        proof (cases "ntt_find_in ntt k")
          case None
          with False show ?thesis by (simp add: ntt_lookup_def f)
        next
          case (Some m)
          with False show ?thesis
            using node_at_appended(1) [OF wf ntt'_def hashcode_less [OF wf] find_in_valid(1) [OF wf Some]]
            by (simp add: ntt_lookup_def f)
        qed
      qed
      then show ?thesis using ins True \<open>ntt_items ntt \<noteq> SIZE_MAX\<close> None
        by (auto simp: ntt_lookup_def)
    qed
  qed
qed

subsection \<open>The four ways through a per-page or per-site block\<close>


lemma lookup_None_iff: "ntt_lookup ntt key = None \<longleftrightarrow> ntt_find_in ntt key = None"
  by (simp add: ntt_lookup_def)

lemma lookup_SomeD:
  "ntt_lookup ntt key = Some e \<Longrightarrow> \<exists>n. ntt_find_in ntt key = Some n \<and> node_at ntt n = e"
  by (auto simp: ntt_lookup_def)

lemma hit_check_absent:
  assumes "ntt_find_in ntt key = None"
  shows "hit_check a ip key iv c t reply (ret, ntt) = (ret, snd (ntt_insert_in a ntt key t))"
  using assms by (simp add: hit_check_def)

lemma hit_check_expired:
  assumes "ntt_find_in ntt key = Some n" and "iv \<le> t - node_timestamp (node_at ntt n)"
  shows "hit_check a ip key iv c t reply (ret, ntt) =
           (ret, node_update n (\<lambda>x. x\<lparr>node_timestamp := t, node_count := 1\<rparr>) ntt)"
  using assms by (simp add: hit_check_def node_update_comp not_less [symmetric])

lemma hit_check_within:
  assumes "ntt_find_in ntt key = Some n" and "t - node_timestamp (node_at ntt n) < iv"
    and "node_count (node_at ntt n) < ucast c"
  shows "hit_check a ip key iv c t reply (ret, ntt) =
           (ret, node_update n (\<lambda>x. x\<lparr>node_timestamp := t, node_count := node_count x + 1\<rparr>) ntt)"
  using assms by (simp add: hit_check_def node_update_comp not_le [symmetric])

lemma hit_check_deny:
  assumes "ntt_find_in ntt key = Some n" and "t - node_timestamp (node_at ntt n) < iv"
    and "ucast c \<le> node_count (node_at ntt n)"
  shows "hit_check a ip key iv c t reply (ret, ntt) =
           (reply, node_update n (\<lambda>x. x\<lparr>node_timestamp := t, node_count := node_count x + 1\<rparr>)
                     (snd (ntt_insert_in a ntt ip t)))"
  using assms by (simp add: hit_check_def node_update_comp)

section \<open>The size of a new table (claim C8)\<close>


lemma prime_list_length: "length ntt_prime_list = 28"
  by (simp add: ntt_prime_list_def)

lemma prime_list_sorted: "sorted ntt_prime_list"
  by (simp add: ntt_prime_list_def)

lemma prime_list_last: "ntt_prime_list ! 27 = 4294967291"
  by (simp add: ntt_prime_list_def)

lemma create_loop_spec:
  "i \<le> 27 \<Longrightarrow>
     i \<le> create_loop i sz \<and> create_loop i sz \<le> 27
     \<and> (\<forall>j. i \<le> j \<and> j < create_loop i sz \<longrightarrow> ntt_prime_list ! j < sz)
     \<and> (create_loop i sz < 27 \<longrightarrow> sz \<le> ntt_prime_list ! create_loop i sz)"
proof (induction i sz rule: create_loop.induct)
  case (1 i sz)
  show ?case
  proof (cases "i < ntt_num_primes - 1 \<and> ntt_prime_list ! i < sz")
    case True
    then have i: "Suc i \<le> 27" by (simp add: ntt_num_primes_def)
    have eq: "create_loop i sz = create_loop (Suc i) sz"
      using True by (subst create_loop.simps) simp
    from "1.IH" [OF True i] have a: "Suc i \<le> create_loop (Suc i) sz"
      and b: "create_loop (Suc i) sz \<le> 27"
      and c: "\<And>j. Suc i \<le> j \<Longrightarrow> j < create_loop (Suc i) sz \<Longrightarrow> ntt_prime_list ! j < sz"
      and d: "create_loop (Suc i) sz < 27 \<longrightarrow> sz \<le> ntt_prime_list ! create_loop (Suc i) sz"
      by auto
    have "ntt_prime_list ! j < sz" if "i \<le> j" and "j < create_loop (Suc i) sz" for j
      using that True c [of j] by (cases "j = i") auto
    with a b d show ?thesis
      unfolding eq by auto
  next
    case False
    then have eq: "create_loop i sz = i"
      by (subst create_loop.simps) auto
    from False "1.prems" show ?thesis
      unfolding eq by (auto simp: ntt_num_primes_def not_less)
  qed
qed

lemma create_loop_size:
  fixes hint :: size_t
  defines "n \<equiv> ntt_prime_list ! create_loop 0 hint"
  shows "n \<in> set ntt_prime_list"
    and "hint \<le> 4294967291 \<Longrightarrow> hint \<le> n"
    and "hint \<le> 4294967291 \<Longrightarrow> p \<in> set ntt_prime_list \<Longrightarrow> hint \<le> p \<Longrightarrow> n \<le> p"
    and "4294967291 < hint \<Longrightarrow> n = 4294967291"
proof -
  let ?r = "create_loop 0 hint"
  from create_loop_spec [of 0 hint] have r: "?r \<le> 27"
    and below: "\<And>j. j < ?r \<Longrightarrow> ntt_prime_list ! j < hint"
    and at: "?r < 27 \<Longrightarrow> hint \<le> ntt_prime_list ! ?r" by auto
  from r show "n \<in> set ntt_prime_list"
    by (simp add: n_def prime_list_length)
  show "hint \<le> n" if "hint \<le> 4294967291"
    using that at r prime_list_last by (cases "?r < 27") (auto simp: n_def)
  show "n \<le> p" if "hint \<le> 4294967291" and p: "p \<in> set ntt_prime_list" and hp: "hint \<le> p"
  proof -
    from p obtain k where k: "k < 28" and pk: "p = ntt_prime_list ! k"
      by (auto simp: in_set_conv_nth prime_list_length)
    have "\<not> k < ?r" using below [of k] hp pk by auto
    then have "?r \<le> k" by simp
    with k show ?thesis
      unfolding n_def pk by (intro sorted_nth_mono prime_list_sorted) (simp_all add: prime_list_length)
  qed
  show "n = 4294967291" if big: "4294967291 < hint"
  proof (cases "?r < 27")
    case True
    from at [OF True] have "hint \<le> ntt_prime_list ! ?r" .
    also have "ntt_prime_list ! ?r \<le> ntt_prime_list ! 27"
      using r by (intro sorted_nth_mono prime_list_sorted) (simp_all add: prime_list_length)
    finally show ?thesis using big prime_list_last by simp
  next
    case False
    with r have "?r = 27" by simp
    then show ?thesis by (simp add: n_def prime_list_last)
  qed
qed

lemma create_loop_50: "create_loop 0 50 = 0"
  by (subst create_loop.simps) (simp add: ntt_prime_list_def ntt_num_primes_def)

text \<open>
  Claim C8. When both allocations succeed, \<^verbatim>\<open>ntt_create\<close> returns a table whose size is an
  entry of the prime table: for a hint up to 4294967291 the smallest entry that is not below
  the hint, for a larger hint the last entry 4294967291. The table starts with no item and
  one empty chain per bucket. A hint of 50 gives the size 53.
\<close>

theorem ntt_create_size:
  "(\<exists>ntt. ntt_create True True hint = Some ntt
     \<and> ntt_size ntt \<in> set ntt_prime_list
     \<and> (if hint \<le> 4294967291
         then hint \<le> ntt_size ntt \<and> (\<forall>p \<in> set ntt_prime_list. hint \<le> p \<longrightarrow> ntt_size ntt \<le> p)
         else ntt_size ntt = 4294967291)
     \<and> ntt_items ntt = 0
     \<and> ntt_tbl ntt = replicate (unat (ntt_size ntt)) [])
   \<and> map_option ntt_size (ntt_create True True 50) = Some 53"
proof
  show "\<exists>ntt. ntt_create True True hint = Some ntt
     \<and> ntt_size ntt \<in> set ntt_prime_list
     \<and> (if hint \<le> 4294967291
         then hint \<le> ntt_size ntt \<and> (\<forall>p \<in> set ntt_prime_list. hint \<le> p \<longrightarrow> ntt_size ntt \<le> p)
         else ntt_size ntt = 4294967291)
     \<and> ntt_items ntt = 0
     \<and> ntt_tbl ntt = replicate (unat (ntt_size ntt)) []"
    using create_loop_size [of hint]
    by (simp add: ntt_create_def Let_def not_le)
  show "map_option ntt_size (ntt_create True True 50) = Some 53"
    by (simp add: ntt_create_def create_loop_50 ntt_prime_list_def)
qed

text \<open>The hint 54 is above the first prime and resolves to the second.\<close>

theorem ntt_create_size_witness:
  "map_option ntt_size (ntt_create True True 54) = Some 97"
proof -
  obtain ntt where c: "ntt_create True True 54 = Some ntt"
    and m: "ntt_size ntt \<in> set ntt_prime_list"
    and lo: "54 \<le> ntt_size ntt"
    and hi: "\<forall>p \<in> set ntt_prime_list. 54 \<le> p \<longrightarrow> ntt_size ntt \<le> p"
    using ntt_create_size [of 54] by auto
  have "97 \<in> set ntt_prime_list" by (simp add: ntt_prime_list_def)
  with hi have "ntt_size ntt \<le> 97" by auto
  with m lo have "ntt_size ntt = 97" by (auto simp: ntt_prime_list_def)
  with c show ?thesis by simp
qed

section \<open>Insertion (claims C3 and C10)\<close>

subsection \<open>The example table\<close>


lemma hash_comma: "ntt_hashcode ex_ntt '','' = 44"
  by (simp add: ntt_hashcode_def ex_ntt_def char_to_size_t_def)

lemma hash_a: "ntt_hashcode ex_ntt ''a'' = 44"
  by (simp add: ntt_hashcode_def ex_ntt_def char_to_size_t_def)

lemma ex_ntt_chain: "ntt_tbl ex_ntt ! 44 = [comma_node]"
  by (simp add: ex_ntt_def)

lemma ex_ntt_wf: "ntt_wf ex_ntt"
  by (simp add: ntt_wf_def ex_ntt_def)

lemma ex_ntt_find_a: "ntt_find (Some ex_ntt) ''a'' = None"
  by (simp add: ntt_find_in_def hash_a ex_ntt_chain comma_node_def)

lemma ex_ntt_find_comma: "ntt_find (Some ex_ntt) '','' = Some (44, 0)"
  by (simp add: ntt_find_in_def hash_comma ex_ntt_chain comma_node_def)

lemma ex_ntt_reached: "snd (ntt_insert True (ntt_create True True 50) '','' 0) = Some ex_ntt"
  by (simp add: ntt_create_def create_loop_50 ntt_prime_list_def ntt_insert_in_def SIZE_MAX_def
      ntt_hashcode_def char_to_size_t_def ntt_node_create_def ex_ntt_def comma_node_def)

lemma ex_ntt_insert_a:
  "ntt_insert True (Some ex_ntt) ''a'' 7 =
     (Some (44, 1),
      Some (ex_ntt\<lparr>ntt_items := 2,
              ntt_tbl := (ntt_tbl ex_ntt)[44 :=
                [comma_node, \<lparr>node_key = ''a'', node_timestamp = 7, node_count = 0\<rparr>]]\<rparr>))"
proof -
  have items: "ntt_items ex_ntt \<noteq> SIZE_MAX" and one: "ntt_items ex_ntt = 1"
    by (simp_all add: ex_ntt_def SIZE_MAX_def)
  have none: "ntt_find_in ex_ntt ''a'' = None"
    using ex_ntt_find_a by simp
  show ?thesis
    using insert_in_new [OF items none, of True 7]
    by (simp add: hash_a ex_ntt_chain ntt_node_create_def one)
qed

subsection \<open>Where a new node is linked, and what a failed allocation leaves\<close>


text \<open>
  Claim C3, as stated: a new entry is linked at the head of its bucket's chain. In the table
  \<open>ex_ntt\<close> the chain of bucket 44 holds the node of the key \<open>'',''\<close>. Inserting the absent
  key \<open>''a''\<close>, which has the same hash code, returns the second position of that chain: the
  new node hangs behind the old one, which stays the head.
\<close>

theorem ntt_insert_head_counterexample:
  "ntt_find (Some ex_ntt) ''a'' = None
   \<and> ntt_hashcode ex_ntt ''a'' = 44
   \<and> ntt_tbl ex_ntt ! 44 = [comma_node]
   \<and> ntt_insert True (Some ex_ntt) ''a'' 7 =
       (Some (44, 1),
        Some (ex_ntt\<lparr>ntt_items := 2,
                ntt_tbl := (ntt_tbl ex_ntt)[44 :=
                  [comma_node, \<lparr>node_key = ''a'', node_timestamp = 7, node_count = 0\<rparr>]]\<rparr>))"
  using ex_ntt_find_a hash_a ex_ntt_chain ex_ntt_insert_a by simp

text \<open>
  Claim C3, amended: \<^verbatim>\<open>ntt_insert\<close> on a table whose item count is \<^verbatim>\<open>SIZE_MAX\<close> returns NULL
  and leaves the table as it is. Otherwise, when \<^verbatim>\<open>ntt_find\<close> finds the key, it returns that
  same node, with the timestamp set to the one given and the count set to 0, and every other
  node and the item count as they were. When the key is absent and the node can be allocated,
  it returns a new node with the key, the timestamp and the count 0, appended at the tail of
  the chain of the key's bucket, and the item count is one more.
\<close>

theorem ntt_insert_spec:
  assumes "ntt_wf ntt"
  shows "(ntt_items ntt = SIZE_MAX \<longrightarrow> ntt_insert a (Some ntt) key t = (None, Some ntt))
    \<and> (ntt_items ntt \<noteq> SIZE_MAX \<longrightarrow>
         (\<forall>n. ntt_find (Some ntt) key = Some n \<longrightarrow>
            (\<exists>ntt'. ntt_insert a (Some ntt) key t = (Some n, Some ntt')
               \<and> node_at ntt' n = \<lparr>node_key = key, node_timestamp = t, node_count = 0\<rparr>
               \<and> (\<forall>m. m \<noteq> n \<longrightarrow> node_at ntt' m = node_at ntt m)
               \<and> ntt_items ntt' = ntt_items ntt
               \<and> map length (ntt_tbl ntt') = map length (ntt_tbl ntt)))
         \<and> (ntt_find (Some ntt) key = None \<longrightarrow>
              ntt_insert True (Some ntt) key t =
                (Some (ntt_hashcode ntt key, length (ntt_tbl ntt ! ntt_hashcode ntt key)),
                 Some (ntt\<lparr>ntt_items := ntt_items ntt + 1,
                          ntt_tbl := (ntt_tbl ntt)[ntt_hashcode ntt key :=
                            ntt_tbl ntt ! ntt_hashcode ntt key
                              @ [\<lparr>node_key = key, node_timestamp = t, node_count = 0\<rparr>]]\<rparr>))))"
proof (intro conjI impI allI)
  assume "ntt_items ntt = SIZE_MAX"
  then show "ntt_insert a (Some ntt) key t = (None, Some ntt)"
    by (simp add: insert_in_max)
next
  fix n
  assume items: "ntt_items ntt \<noteq> SIZE_MAX" and "ntt_find (Some ntt) key = Some n"
  then have n: "ntt_find_in ntt key = Some n" by simp
  let ?f = "\<lambda>x. x\<lparr>node_timestamp := t, node_count := 0\<rparr>"
  have at: "node_at ntt n\<lparr>node_timestamp := t, node_count := 0\<rparr> =
          \<lparr>node_key = key, node_timestamp = t, node_count = 0\<rparr>"
    using find_in_valid(2) [OF assms n] by (cases "node_at ntt n") simp
  have len: "map length (ntt_tbl (node_update n ?f ntt)) = map length (ntt_tbl ntt)"
    by (rule nth_equalityI) (simp_all add: chain_node_update)
  show "\<exists>ntt'. ntt_insert a (Some ntt) key t = (Some n, Some ntt')
          \<and> node_at ntt' n = \<lparr>node_key = key, node_timestamp = t, node_count = 0\<rparr>
          \<and> (\<forall>m. m \<noteq> n \<longrightarrow> node_at ntt' m = node_at ntt m)
          \<and> ntt_items ntt' = ntt_items ntt
          \<and> map length (ntt_tbl ntt') = map length (ntt_tbl ntt)"
    using find_in_valid(1) [OF assms n] at len
    by (simp add: insert_in_found [OF items n] node_at_node_update)
next
  assume items: "ntt_items ntt \<noteq> SIZE_MAX" and "ntt_find (Some ntt) key = None"
  then have "ntt_find_in ntt key = None" by simp
  from insert_in_new [OF items this, of True t]
  show "ntt_insert True (Some ntt) key t =
          (Some (ntt_hashcode ntt key, length (ntt_tbl ntt ! ntt_hashcode ntt key)),
           Some (ntt\<lparr>ntt_items := ntt_items ntt + 1,
                    ntt_tbl := (ntt_tbl ntt)[ntt_hashcode ntt key :=
                      ntt_tbl ntt ! ntt_hashcode ntt key
                        @ [\<lparr>node_key = key, node_timestamp = t, node_count = 0\<rparr>]]\<rparr>))"
    by (simp add: ntt_node_create_def)
qed

text \<open>The three cases on example tables: the full table, the key \<open>'',''\<close> that \<open>ex_ntt\<close>
  holds, and the key \<open>''a''\<close> that it does not hold.\<close>

theorem ntt_insert_spec_witness:
  "ntt_insert True (Some full_ntt) ''a'' 7 = (None, Some full_ntt)
   \<and> fst (ntt_insert True (Some ex_ntt) '','' 9) = Some (44, 0)
   \<and> fst (ntt_insert True (Some ex_ntt) ''a'' 7) = Some (44, 1)"
proof -
  have full: "ntt_wf full_ntt" "ntt_items full_ntt = SIZE_MAX"
    by (simp_all add: ntt_wf_def full_ntt_def)
  have ex: "ntt_items ex_ntt \<noteq> SIZE_MAX"
    by (simp add: ex_ntt_def SIZE_MAX_def)
  from ntt_insert_spec [OF full(1), of True "''a''" 7] full(2)
  have 1: "ntt_insert True (Some full_ntt) ''a'' 7 = (None, Some full_ntt)" by simp
  from ntt_insert_spec [OF ex_ntt_wf, of True "'',''" 9] ex ex_ntt_find_comma
  have 2: "fst (ntt_insert True (Some ex_ntt) '','' 9) = Some (44, 0)" by auto
  from ntt_insert_spec [OF ex_ntt_wf, of True "''a''" 7] ex ex_ntt_find_a
  have 3: "fst (ntt_insert True (Some ex_ntt) ''a'' 7) = Some (44, 1)"
    by (simp add: hash_a ex_ntt_chain)
  from 1 2 3 show ?thesis by simp
qed

text \<open>
  Claim C10. When the key is absent, the item count is below \<^verbatim>\<open>SIZE_MAX\<close> (so that
  \<^verbatim>\<open>ntt_insert\<close> gets as far as allocating) and \<^verbatim>\<open>ntt_node_create\<close> fails, \<^verbatim>\<open>ntt_insert\<close>
  returns NULL, leaves every chain as it was and still adds one to the item count. On a table
  whose item count was at least the number of nodes in its chains, the item count is then
  strictly above that number.
\<close>

theorem ntt_insert_failed_alloc_counts:
  assumes "ntt_items ntt \<noteq> SIZE_MAX" and "ntt_find (Some ntt) key = None"
  shows "ntt_insert False (Some ntt) key t = (None, Some (ntt\<lparr>ntt_items := ntt_items ntt + 1\<rparr>))
         \<and> unat (ntt_items ntt + 1) = unat (ntt_items ntt) + 1
         \<and> entry_count (ntt\<lparr>ntt_items := ntt_items ntt + 1\<rparr>) = entry_count ntt
         \<and> (entry_count ntt \<le> unat (ntt_items ntt) \<longrightarrow>
              entry_count (ntt\<lparr>ntt_items := ntt_items ntt + 1\<rparr>) < unat (ntt_items ntt + 1))"
proof -
  from assms(2) have none: "ntt_find_in ntt key = None" by simp
  have "1 + ntt_items ntt \<noteq> 0"
    using assms(1) max_word_wrap [of "ntt_items ntt"] by (auto simp: SIZE_MAX_def add.commute)
  then have "unat (1 + ntt_items ntt) = Suc (unat (ntt_items ntt))"
    by (rule unatSuc)
  then have "unat (ntt_items ntt + 1) = unat (ntt_items ntt) + 1"
    by (simp add: add.commute)
  then show ?thesis
    by (simp add: insert_in_new [OF assms(1) none] ntt_node_create_def entry_count_def)
qed

text \<open>On \<open>ex_ntt\<close>, which holds one node and counts one item, with the absent key \<open>''a''\<close>.\<close>

theorem ntt_insert_failed_alloc_counts_witness:
  "ntt_insert False (Some ex_ntt) ''a'' 7 = (None, Some (ex_ntt\<lparr>ntt_items := 2\<rparr>))
   \<and> entry_count ex_ntt = 1
   \<and> unat (ntt_items ex_ntt) = 1
   \<and> entry_count (ex_ntt\<lparr>ntt_items := 2\<rparr>) < unat (2 :: size_t)"
proof -
  have items: "ntt_items ex_ntt \<noteq> SIZE_MAX" and one: "ntt_items ex_ntt = 1"
    by (simp_all add: ex_ntt_def SIZE_MAX_def)
  have "entry_count ex_ntt = sum_list ((replicate 53 0)[44 := 1])"
    by (simp add: entry_count_def ex_ntt_def map_update)
  also have "\<dots> = 1"
    by (simp add: sum_list_update)
  finally have count: "entry_count ex_ntt = 1" .
  from ntt_insert_failed_alloc_counts [OF items ex_ntt_find_a, of 7] count
  show ?thesis by (simp add: one)
qed

section \<open>The invariant of the chains (claim C7)\<close>


lemma chain_inv_cong:
  assumes "ntt_size ntt' = ntt_size ntt"
    and "map node_key (ntt_tbl ntt' ! h) = map node_key (ntt_tbl ntt ! h)"
  shows "chain_inv ntt' h = chain_inv ntt h"
  using assms by (simp add: chain_inv_def ntt_hashcode_def)

lemma inv_node_update:
  assumes "\<And>x. node_key (f x) = node_key x"
  shows "ntt_inv (node_update n f ntt) = ntt_inv ntt"
  using chain_inv_cong [of "node_update n f ntt" ntt, OF _ keys_node_update [of f], OF _ assms]
  by (simp add: ntt_inv_def)

lemma inv_items: "ntt_inv (ntt\<lparr>ntt_items := c\<rparr>) = ntt_inv ntt"
  using chain_inv_cong [of "ntt\<lparr>ntt_items := c\<rparr>" ntt]
  by (simp add: ntt_inv_def ntt_wf_def)

lemma inv_appended:
  assumes inv: "ntt_inv ntt" and none: "ntt_find_in ntt key = None"
  shows "ntt_inv (ntt\<lparr>ntt_items := c,
            ntt_tbl := (ntt_tbl ntt)[ntt_hashcode ntt key :=
               ntt_tbl ntt ! ntt_hashcode ntt key
                 @ [\<lparr>node_key = key, node_timestamp = t, node_count = 0\<rparr>]]\<rparr>)"
    (is "ntt_inv ?ntt'")
proof -
  let ?h = "ntt_hashcode ntt key"
  from inv have wf: "ntt_wf ntt" by (simp add: ntt_inv_def)
  have hk: "ntt_hashcode ?ntt' k = ntt_hashcode ntt k" for k
    by (simp add: ntt_hashcode_def)
  from none have "find_loop key (ntt_tbl ntt ! ?h) 0 = None"
    by (auto simp: ntt_find_in_def Let_def split: option.splits)
  then have fresh: "key \<notin> node_key ` set (ntt_tbl ntt ! ?h)"
    by (simp add: find_loop_None)
  have "chain_inv ?ntt' h" if h: "h < length (ntt_tbl ntt)" for h
  proof (cases "h = ?h")
    case True
    from inv h have "chain_inv ntt h" by (simp add: ntt_inv_def)
    with True fresh h show ?thesis
      by (auto simp: chain_inv_def hk)
  next
    case False
    from inv h have "chain_inv ntt h" by (simp add: ntt_inv_def)
    with False show ?thesis
      by (simp add: chain_inv_def hk)
  qed
  with wf show ?thesis by (simp add: ntt_inv_def ntt_wf_def)
qed

lemma inv_insert_in:
  assumes inv: "ntt_inv ntt"
  shows "ntt_inv (snd (ntt_insert_in a ntt key t))"
proof (cases "ntt_items ntt = SIZE_MAX")
  case True
  with inv show ?thesis by (simp add: insert_in_max)
next
  case False
  show ?thesis
  proof (cases "ntt_find_in ntt key")
    case (Some n)
    with inv show ?thesis
      by (simp add: insert_in_found [OF False Some] inv_node_update)
  next
    case None
    show ?thesis
    proof (cases a)
      case True
      with inv_appended [OF inv None] show ?thesis
        by (simp add: insert_in_new [OF False None] ntt_node_create_def)
    next
      case False
      with inv show ?thesis
        by (simp add: insert_in_new [OF \<open>ntt_items ntt \<noteq> SIZE_MAX\<close> None] ntt_node_create_def inv_items)
    qed
  qed
qed

lemma delete_in_absent: "ntt_find_in ntt key = None \<Longrightarrow> ntt_delete_in ntt key = (- 5, ntt)"
proof -
  assume "ntt_find_in ntt key = None"
  then have "find_loop key (ntt_tbl ntt ! ntt_hashcode ntt key) 0 = None"
    by (auto simp: ntt_find_in_def Let_def split: option.splits)
  then obtain p where "walk_loop key (ntt_tbl ntt ! ntt_hashcode ntt key) 0 None = (None, p)"
    using walk_loop_fst [of key "ntt_tbl ntt ! ntt_hashcode ntt key" 0 None]
    by (cases "walk_loop key (ntt_tbl ntt ! ntt_hashcode ntt key) 0 None") simp
  then show ?thesis by (simp add: ntt_delete_in_def Let_def)
qed

lemma delete_in_found:
  assumes "ntt_find_in ntt key = Some (h, d)"
  shows "ntt_delete_in ntt key =
           (0, ntt\<lparr>ntt_tbl := (ntt_tbl ntt)[h := take d (ntt_tbl ntt ! h) @ drop (Suc d) (ntt_tbl ntt ! h)],
                  ntt_items := ntt_items ntt - 1\<rparr>)"
proof -
  from assms have h: "h = ntt_hashcode ntt key"
    and d: "find_loop key (ntt_tbl ntt ! h) 0 = Some d"
    by (auto simp: ntt_find_in_def Let_def split: option.splits)
  have walk: "walk_loop key (ntt_tbl ntt ! h) 0 None = (Some d, if d = 0 then None else Some (d - 1))"
    using walk_loop_eq [of key "ntt_tbl ntt ! h" 0 None] walk_loop_parent_Some [OF d, of None] d
    by simp
  show ?thesis
  proof (cases "d = 0")
    case True
    with walk h show ?thesis by (simp add: ntt_delete_in_def Let_def)
  next
    case False
    then have "Suc (d - 1) = d" by simp
    with False walk h show ?thesis by (simp add: ntt_delete_in_def Let_def)
  qed
qed

lemma distinct_remove_nth: "distinct xs \<Longrightarrow> distinct (take d xs @ drop (Suc d) xs)"
  using set_take_disj_set_drop_if_distinct [of xs d "Suc d"] by simp

lemma inv_delete_in:
  assumes inv: "ntt_inv ntt"
  shows "ntt_inv (snd (ntt_delete_in ntt key))"
proof (cases "ntt_find_in ntt key")
  case None
  with inv show ?thesis by (simp add: delete_in_absent)
next
  case (Some n)
  obtain h d where n: "n = (h, d)" by (cases n)
  from inv have wf: "ntt_wf ntt" by (simp add: ntt_inv_def)
  let ?chain = "ntt_tbl ntt ! h"
  let ?ntt' = "ntt\<lparr>ntt_tbl := (ntt_tbl ntt)[h := take d ?chain @ drop (Suc d) ?chain],
                  ntt_items := ntt_items ntt - 1\<rparr>"
  have hk: "ntt_hashcode ?ntt' k = ntt_hashcode ntt k" for k
    by (simp add: ntt_hashcode_def)
  have "chain_inv ?ntt' h'" if h': "h' < length (ntt_tbl ntt)" for h'
  proof (cases "h' = h")
    case True
    from inv h' have c: "chain_inv ntt h'" by (simp add: ntt_inv_def)
    have sub: "set (take d ?chain @ drop (Suc d) ?chain) \<subseteq> set ?chain"
      using set_take_subset [of d ?chain] set_drop_subset [of "Suc d" ?chain] by auto
    have "distinct (take d (map node_key ?chain) @ drop (Suc d) (map node_key ?chain))"
      using c True by (intro distinct_remove_nth) (simp add: chain_inv_def)
    with c True h' sub show ?thesis
      by (auto simp: chain_inv_def hk take_map drop_map)
  next
    case False
    from inv h' have "chain_inv ntt h'" by (simp add: ntt_inv_def)
    with False show ?thesis by (simp add: chain_inv_def hk)
  qed
  with wf have "ntt_inv ?ntt'" by (simp add: ntt_inv_def ntt_wf_def)
  with Some n show ?thesis by (simp add: delete_in_found)
qed

lemma inv_unique:
  assumes inv: "ntt_inv ntt" and m: "valid_ptr ntt m" and n: "valid_ptr ntt n"
    and eq: "node_key (node_at ntt m) = node_key (node_at ntt n)"
  shows "m = n"
proof -
  from inv m have cm: "chain_inv ntt (fst m)" by (simp add: ntt_inv_def valid_ptr_def)
  from inv n have cn: "chain_inv ntt (fst n)" by (simp add: ntt_inv_def valid_ptr_def)
  from cm m have "ntt_hashcode ntt (node_key (node_at ntt m)) = fst m"
    by (simp add: chain_inv_def node_at_def valid_ptr_def)
  moreover from cn n have "ntt_hashcode ntt (node_key (node_at ntt n)) = fst n"
    by (simp add: chain_inv_def node_at_def valid_ptr_def)
  ultimately have f: "fst m = fst n" using eq by simp
  from cn have d: "distinct (map node_key (ntt_tbl ntt ! fst n))" by (simp add: chain_inv_def)
  have "snd m = snd n"
    using nth_eq_iff_index_eq [OF d, of "snd m" "snd n"] m n f eq
    by (simp add: valid_ptr_def node_at_def)
  with f show ?thesis by (simp add: prod_eq_iff)
qed

lemma inv_bucket:
  assumes inv: "ntt_inv ntt" and n: "valid_ptr ntt n"
  shows "fst n = ntt_hashcode ntt (node_key (node_at ntt n))"
proof -
  from inv n have "chain_inv ntt (fst n)" by (simp add: ntt_inv_def valid_ptr_def)
  with n show ?thesis by (simp add: chain_inv_def node_at_def valid_ptr_def)
qed

lemma inv_find_complete:
  assumes inv: "ntt_inv ntt" and n: "valid_ptr ntt n"
  shows "ntt_find_in ntt (node_key (node_at ntt n)) = Some n"
proof -
  let ?k = "node_key (node_at ntt n)"
  from inv have wf: "ntt_wf ntt" by (simp add: ntt_inv_def)
  have h: "ntt_hashcode ntt ?k = fst n" using inv_bucket [OF inv n] by simp
  have "?k \<in> node_key ` set (ntt_tbl ntt ! fst n)"
    using n by (auto simp: node_at_def valid_ptr_def)
  then obtain m where m: "ntt_find_in ntt ?k = Some m"
    using h by (cases "find_loop ?k (ntt_tbl ntt ! fst n) 0")
      (auto simp: find_loop_None ntt_find_in_def)
  from find_in_valid [OF wf m] inv_unique [OF inv _ n] have "m = n" by simp
  with m show ?thesis by simp
qed

lemma insert_in_returns_found:
  assumes wf: "ntt_wf ntt" and r: "fst (ntt_insert_in a ntt key t) = Some n"
  shows "ntt_find_in (snd (ntt_insert_in a ntt key t)) key = Some n"
proof (cases "ntt_items ntt = SIZE_MAX")
  case True
  with r show ?thesis by (simp add: insert_in_max)
next
  case False
  show ?thesis
  proof (cases "ntt_find_in ntt key")
    case (Some m)
    with r show ?thesis
      by (simp add: insert_in_found [OF False Some] find_in_node_update)
  next
    case None
    from r have a: a
      by (cases a) (simp_all add: insert_in_new [OF False None] ntt_node_create_def)
    from r a have n: "n = (ntt_hashcode ntt key, length (ntt_tbl ntt ! ntt_hashcode ntt key))"
      by (simp add: insert_in_new [OF False None] ntt_node_create_def)
    show ?thesis
      using find_in_appended [OF wf None refl, of "\<lparr>node_key = key, node_timestamp = t, node_count = 0\<rparr>"
          "ntt_items ntt + 1" key] a n
      by (simp add: insert_in_new [OF False None] ntt_node_create_def)
  qed
qed

lemma inv_create:
  assumes "ntt_create m c sz = Some ntt"
  shows "ntt_inv ntt"
proof -
  let ?n = "ntt_prime_list ! create_loop 0 sz"
  from assms have ntt: "ntt = \<lparr>ntt_size = ?n, ntt_items = 0, ntt_tbl = replicate (unat ?n) []\<rparr>"
    by (simp add: ntt_create_def Let_def split: if_splits)
  have "?n \<in> set ntt_prime_list" by (rule create_loop_size(1))
  then have "?n \<noteq> 0" by (auto simp: ntt_prime_list_def)
  then show ?thesis
    by (simp add: ntt ntt_inv_def ntt_wf_def chain_inv_def)
qed

text \<open>
  Claim C7. On a table that satisfies the invariant (every node hangs in the chain of the
  bucket that the hash code of its key names, and no chain holds a key twice),
  \<^verbatim>\<open>ntt_insert\<close> and \<^verbatim>\<open>ntt_delete\<close> return a table that satisfies it again, whatever the key
  and whether or not the allocation succeeds; \<^verbatim>\<open>ntt_find\<close> changes nothing. A node that
  \<^verbatim>\<open>ntt_find\<close> returns is a node of the table and has the key asked for; every node of the
  table is in the bucket of its key's hash code and is the node that \<^verbatim>\<open>ntt_find\<close> returns for
  its key; two nodes with the same key are the same node. The node that \<^verbatim>\<open>ntt_insert\<close>
  returns for a key \<open>k1\<close> is never what \<^verbatim>\<open>ntt_find\<close> then returns for another key \<open>k2\<close>.
\<close>

theorem ntt_keys_invariant:
  assumes "ntt_inv ntt"
  shows "(\<exists>ntt'. snd (ntt_insert a (Some ntt) k1 t) = Some ntt' \<and> ntt_inv ntt')
    \<and> (\<exists>ntt'. snd (ntt_delete (Some ntt) k1) = Some ntt' \<and> ntt_inv ntt')
    \<and> (\<forall>n. ntt_find (Some ntt) k2 = Some n \<longrightarrow>
          valid_ptr ntt n \<and> node_key (node_at ntt n) = k2)
    \<and> (\<forall>n. valid_ptr ntt n \<longrightarrow>
          fst n = ntt_hashcode ntt (node_key (node_at ntt n))
          \<and> ntt_find (Some ntt) (node_key (node_at ntt n)) = Some n)
    \<and> (\<forall>m n. valid_ptr ntt m \<and> valid_ptr ntt n
          \<and> node_key (node_at ntt m) = node_key (node_at ntt n) \<longrightarrow> m = n)
    \<and> (\<forall>n1. k1 \<noteq> k2 \<and> fst (ntt_insert a (Some ntt) k1 t) = Some n1 \<longrightarrow>
          ntt_find (snd (ntt_insert a (Some ntt) k1 t)) k2 \<noteq> Some n1)"
proof -
  from assms have wf: "ntt_wf ntt" by (simp add: ntt_inv_def)
  have ins: "\<exists>ntt'. snd (ntt_insert a (Some ntt) k1 t) = Some ntt' \<and> ntt_inv ntt'"
    using inv_insert_in [OF assms, of a k1 t] by (simp add: split_beta)
  have del: "\<exists>ntt'. snd (ntt_delete (Some ntt) k1) = Some ntt' \<and> ntt_inv ntt'"
    using inv_delete_in [OF assms, of k1] by (simp add: split_beta)
  have found: "\<forall>n. ntt_find (Some ntt) k2 = Some n \<longrightarrow>
          valid_ptr ntt n \<and> node_key (node_at ntt n) = k2"
    using find_in_valid [OF wf] by simp
  have reach: "\<forall>n. valid_ptr ntt n \<longrightarrow>
          fst n = ntt_hashcode ntt (node_key (node_at ntt n))
          \<and> ntt_find (Some ntt) (node_key (node_at ntt n)) = Some n"
    using inv_bucket [OF assms] inv_find_complete [OF assms] by simp
  have uniq: "\<forall>m n. valid_ptr ntt m \<and> valid_ptr ntt n
          \<and> node_key (node_at ntt m) = node_key (node_at ntt n) \<longrightarrow> m = n"
    using inv_unique [OF assms] by blast
  have noalias: "\<forall>n1. k1 \<noteq> k2 \<and> fst (ntt_insert a (Some ntt) k1 t) = Some n1 \<longrightarrow>
          ntt_find (snd (ntt_insert a (Some ntt) k1 t)) k2 \<noteq> Some n1"
  proof (intro allI impI notI)
    fix n1
    let ?ntt' = "snd (ntt_insert_in a ntt k1 t)"
    assume a: "k1 \<noteq> k2 \<and> fst (ntt_insert a (Some ntt) k1 t) = Some n1"
      and b: "ntt_find (snd (ntt_insert a (Some ntt) k1 t)) k2 = Some n1"
    from a have "fst (ntt_insert_in a ntt k1 t) = Some n1" by (simp add: split_beta)
    from insert_in_returns_found [OF wf this] have 1: "ntt_find_in ?ntt' k1 = Some n1" .
    from b have 2: "ntt_find_in ?ntt' k2 = Some n1" by (simp add: split_beta)
    have wf': "ntt_wf ?ntt'" by (rule wf_insert_in [OF wf])
    from find_in_valid(2) [OF wf' 1] find_in_valid(2) [OF wf' 2] a show False by simp
  qed
  from ins del found reach uniq noalias show ?thesis by blast
qed

lemma ex_ntt_inv: "ntt_inv ex_ntt"
proof -
  have "chain_inv ex_ntt h" if "h < 53" for h
    using that
    by (cases "h = 44")
       (simp_all add: chain_inv_def ex_ntt_def comma_node_def ntt_hashcode_def char_to_size_t_def)
  with ex_ntt_wf show ?thesis by (simp add: ntt_inv_def ex_ntt_def)
qed

text \<open>On \<open>ex_ntt\<close>, with the colliding keys \<open>''a''\<close> and \<open>'',''\<close>.\<close>

theorem ntt_keys_invariant_witness:
  "ntt_inv ex_ntt
   \<and> (\<exists>ntt'. snd (ntt_insert True (Some ex_ntt) ''a'' 7) = Some ntt' \<and> ntt_inv ntt')
   \<and> fst (ntt_insert True (Some ex_ntt) ''a'' 7) = Some (44, 1)
   \<and> ntt_find (Some ex_ntt) '','' = Some (44, 0)
   \<and> valid_ptr ex_ntt (44, 0)
   \<and> ntt_find (snd (ntt_insert True (Some ex_ntt) ''a'' 7)) '','' \<noteq> Some (44, 1)"
proof -
  have r: "fst (ntt_insert True (Some ex_ntt) ''a'' 7) = Some (44, 1)"
    using ex_ntt_insert_a by simp
  have ne: "''a'' \<noteq> '',''" by simp
  from ntt_keys_invariant [OF ex_ntt_inv, of True "''a''" 7 "'',''"] r ne ex_ntt_find_comma ex_ntt_inv
  show ?thesis by auto
qed

section \<open>The whitelist of addresses (claim C6)\<close>



lemma access_checker_whitelisted:
  "is_whitelisted (strdup_ok env) (useragent_ip r) cfg \<Longrightarrow> access_checker env cfg r = (OK, cfg)"
  by (simp add: access_checker_def split: option.splits)

lemma access_checker_active:
  assumes "enabled cfg \<noteq> 0" and "prev_is_null r" and "main_is_null r"
    and "hit_list cfg = Some ntt"
    and "\<not> is_whitelisted (strdup_ok env) (useragent_ip r) cfg"
  shows "access_checker env cfg r =
           (case on_hold ntt (useragent_ip r) (now env) (blocking_period cfg) of
              Some n \<Rightarrow>
                (http_reply cfg,
                 cfg\<lparr>hit_list := Some (node_update n (\<lambda>x. x\<lparr>node_timestamp := now env\<rparr>) ntt)\<rparr>)
            | None \<Rightarrow> hit_stats env cfg r ntt)"
  using assms by (simp add: access_checker_def)

lemma is_whitelisted_iff:
  "is_whitelisted d ip cfg \<longleftrightarrow>
     d \<and> (\<exists>k \<in> set (whitelist_keys ip). ntt_find (hit_list cfg) k \<noteq> None)"
  by (auto simp: is_whitelisted_def whitelist_keys_def)

lemma hit_stats_uri:
  "is_uri_whitelisted (match_data_ok env) (uri r) cfg \<Longrightarrow> hit_stats env cfg r ntt = (OK, cfg)"
  by (simp add: hit_stats_def)

lemma serve_whitelisted:
  assumes "\<forall>(env, r) \<in> set rs. is_whitelisted (strdup_ok env) (useragent_ip r) cfg"
  shows "serve cfg rs = (map (\<lambda>x. OK) rs, cfg)"
  using assms
proof (induction rs)
  case Nil
  then show ?case by simp
next
  case (Cons x rs)
  obtain env r where x: "x = (env, r)" by (cases x)
  with Cons show ?case by (simp add: access_checker_whitelisted)
qed

text \<open>
  Claim C6, amended: when \<^verbatim>\<open>is_whitelisted\<close> can copy the address (its \<^verbatim>\<open>strdup\<close> succeeds)
  and the address matches the whitelist, that is, \<^verbatim>\<open>ntt_find\<close> finds one of the four keys
  tried (the address itself, or its first one, two or three octets followed by \<open>*\<close> octets,
  each behind the prefix \<open>WHITELIST_\<close>), \<^verbatim>\<open>access_checker\<close> returns \<^verbatim>\<open>OK\<close> and leaves the
  configuration and its table as they are: no entry is made, counted up or touched; so does
  any number of such requests in a row. \<^verbatim>\<open>is_whitelisted\<close> answers 1 in exactly that case.
\<close>

theorem whitelisted_ip_passes_untouched:
  assumes "strdup_ok env" and "k \<in> set (whitelist_keys (useragent_ip r))"
    and "ntt_find (hit_list cfg) k \<noteq> None"
  shows "access_checker env cfg r = (OK, cfg)
         \<and> serve cfg (replicate n (env, r)) = (replicate n OK, cfg)
         \<and> is_whitelisted (strdup_ok env) (useragent_ip r) cfg
         \<and> (is_whitelisted d (useragent_ip r) cfg \<longleftrightarrow>
              d \<and> (\<exists>k \<in> set (whitelist_keys (useragent_ip r)). ntt_find (hit_list cfg) k \<noteq> None))
         \<and> whitelist_keys (useragent_ip r) =
              [snprintf 128 (''WHITELIST_'' @ useragent_ip r),
               snprintf 128 (''WHITELIST_'' @ octet (useragent_ip r) 0 @ ''.*.*.*''),
               snprintf 128 (''WHITELIST_'' @ octet (useragent_ip r) 0 @ ''.''
                  @ octet (useragent_ip r) 1 @ ''.*.*''),
               snprintf 128 (''WHITELIST_'' @ octet (useragent_ip r) 0 @ ''.''
                  @ octet (useragent_ip r) 1 @ ''.'' @ octet (useragent_ip r) 2 @ ''.*'')]"
proof -
  from assms have w: "is_whitelisted (strdup_ok env) (useragent_ip r) cfg"
    by (auto simp: is_whitelisted_iff)
  then have "serve cfg (replicate n (env, r)) = (map (\<lambda>x. OK) (replicate n (env, r)), cfg)"
    by (intro serve_whitelisted) simp
  moreover from w have "access_checker env cfg r = (OK, cfg)"
    by (rule access_checker_whitelisted)
  moreover note w is_whitelisted_iff [of d "useragent_ip r" cfg]
    whitelist_keys_def [of "useragent_ip r"]
  ultimately show ?thesis by (intro conjI) simp_all
qed

lemma wl_cfg_key: "''WHITELIST_1.2.*.*'' \<in> set (whitelist_keys ''1.2.3.4'')"
  by (simp add: whitelist_keys_def octet_def snprintf_def)

lemma wl_cfg_find: "ntt_find (hit_list wl_cfg) ''WHITELIST_1.2.*.*'' \<noteq> None"
  by code_simp

text \<open>
  Claim C6, as stated: every request from an address that matches the whitelist passes and
  changes nothing. Under \<^verbatim>\<open>DOSWhitelist 1.2.*.*\<close> the address \<open>1.2.3.4\<close> matches: its key
  \<open>WHITELIST_1.2.*.*\<close> is in the table. When the \<^verbatim>\<open>strdup\<close> of \<^verbatim>\<open>is_whitelisted\<close> fails,
  the function returns 0 before it looks anything up: the first request already changes the
  table, and of four requests at time 0 the last is denied.
\<close>

theorem whitelisted_ip_counted_counterexample:
  "''WHITELIST_1.2.*.*'' \<in> set (whitelist_keys (useragent_ip ex_req))
   \<and> ntt_find (hit_list wl_cfg) ''WHITELIST_1.2.*.*'' \<noteq> None
   \<and> hit_list (snd (access_checker (no_strdup_env 0) wl_cfg ex_req)) \<noteq> hit_list wl_cfg
   \<and> fst (serve wl_cfg [(no_strdup_env 0, ex_req), (no_strdup_env 0, ex_req),
                           (no_strdup_env 0, ex_req), (no_strdup_env 0, ex_req)])
       = [OK, OK, OK, HTTP_FORBIDDEN]"
proof -
  have "hit_list (snd (access_checker (no_strdup_env 0) wl_cfg ex_req)) \<noteq> hit_list wl_cfg"
    by code_simp
  moreover have "fst (serve wl_cfg [(no_strdup_env 0, ex_req), (no_strdup_env 0, ex_req),
                           (no_strdup_env 0, ex_req), (no_strdup_env 0, ex_req)])
       = [OK, OK, OK, HTTP_FORBIDDEN]"
    by code_simp
  ultimately show ?thesis
    using wl_cfg_key wl_cfg_find by (simp add: ex_req_def)
qed

text \<open>The address \<open>1.2.3.4\<close> under \<^verbatim>\<open>DOSWhitelist 1.2.*.*\<close>, with memory for the copy: a
  hundred requests.\<close>

theorem whitelisted_ip_passes_untouched_witness:
  "is_whitelisted (strdup_ok (ex_env 5)) (useragent_ip ex_req) wl_cfg
   \<and> access_checker (ex_env 5) wl_cfg ex_req = (OK, wl_cfg)
   \<and> serve wl_cfg (replicate 100 (ex_env 5, ex_req)) = (replicate 100 OK, wl_cfg)"
proof -
  have 1: "strdup_ok (ex_env 5)" by (simp add: ex_env_def)
  have 2: "''WHITELIST_1.2.*.*'' \<in> set (whitelist_keys (useragent_ip ex_req))"
    using wl_cfg_key by (simp add: ex_req_def)
  note inst = whitelisted_ip_passes_untouched [OF 1 2 wl_cfg_find, where n = 100 and d = True]
  from inst have a: "access_checker (ex_env 5) wl_cfg ex_req = (OK, wl_cfg)"
    by (rule conjunct1)
  from inst have b: "serve wl_cfg (replicate 100 (ex_env 5, ex_req)) = (replicate 100 OK, wl_cfg)"
    by (rule conjunct1 [OF conjunct2])
  from inst have c: "is_whitelisted (strdup_ok (ex_env 5)) (useragent_ip ex_req) wl_cfg"
    by (rule conjunct1 [OF conjunct2 [OF conjunct2]])
  from a b c show ?thesis by (intro conjI)
qed

section \<open>The hold and the URI whitelist (claims C5 and C2)\<close>


lemma on_hold_Some_iff:
  "on_hold ntt ip t p = Some n \<longleftrightarrow>
     ntt_find_in ntt ip = Some n \<and> t - node_timestamp (node_at ntt n) < p"
  by (auto simp: on_hold_def split: option.splits)

lemma on_hold_None_iff:
  "on_hold ntt ip t p = None \<longleftrightarrow>
     (\<forall>n. ntt_find_in ntt ip = Some n \<longrightarrow> p \<le> t - node_timestamp (node_at ntt n))"
  by (auto simp: on_hold_def split: option.splits)

lemma is_whitelisted_node_update:
  assumes "\<And>x. node_key (f x) = node_key x"
  shows "is_whitelisted d ip (cfg\<lparr>hit_list := Some (node_update n f ntt)\<rparr>) =
         is_whitelisted d ip (cfg\<lparr>hit_list := Some ntt\<rparr>)"
  by (simp add: is_whitelisted_iff find_in_node_update assms)

lemma cfg_hit_list_same: "hit_list cfg = Some ntt \<Longrightarrow> cfg\<lparr>hit_list := Some ntt\<rparr> = cfg"
  by (cases cfg) auto

lemma access_checker_held:
  assumes act: "enabled cfg \<noteq> 0" "prev_is_null r" "main_is_null r" "hit_list cfg = Some ntt"
    and wl: "\<not> is_whitelisted (strdup_ok env) (useragent_ip r) cfg"
    and n: "ntt_find_in ntt (useragent_ip r) = Some n"
    and t: "now env - node_timestamp (node_at ntt n) < blocking_period cfg"
  shows "access_checker env cfg r =
           (http_reply cfg,
            cfg\<lparr>hit_list := Some (node_update n (\<lambda>x. x\<lparr>node_timestamp := now env\<rparr>) ntt)\<rparr>)"
proof -
  from n t have "on_hold ntt (useragent_ip r) (now env) (blocking_period cfg) = Some n"
    by (simp add: on_hold_Some_iff)
  with access_checker_active [OF act wl] show ?thesis by simp
qed

lemma access_checker_not_held:
  assumes act: "enabled cfg \<noteq> 0" "prev_is_null r" "main_is_null r" "hit_list cfg = Some ntt"
    and wl: "\<not> is_whitelisted (strdup_ok env) (useragent_ip r) cfg"
    and h: "on_hold ntt (useragent_ip r) (now env) (blocking_period cfg) = None"
  shows "access_checker env cfg r = hit_stats env cfg r ntt"
  using access_checker_active [OF act wl] h by simp

lemma held_stream:
  assumes "enabled cfg \<noteq> 0" and "hit_list cfg = Some ntt" and "ntt_wf ntt"
    and "ntt_find_in ntt ip = Some n"
    and "within_hold (blocking_period cfg) (node_timestamp (node_at ntt n)) (map (\<lambda>x. now (fst x)) rs)"
    and "\<forall>(env, r) \<in> set rs. useragent_ip r = ip \<and> prev_is_null r \<and> main_is_null r
           \<and> \<not> is_whitelisted (strdup_ok env) ip cfg"
  shows "fst (serve cfg rs) = replicate (length rs) (http_reply cfg)"
  using assms
proof (induction rs arbitrary: cfg ntt)
  case Nil
  then show ?case by simp
next
  case (Cons x rs)
  obtain env r where x: "x = (env, r)" by (cases x)
  let ?f = "\<lambda>x. x\<lparr>node_timestamp := now env\<rparr>"
  let ?ntt' = "node_update n ?f ntt"
  let ?cfg' = "cfg\<lparr>hit_list := Some ?ntt'\<rparr>"
  from Cons.prems(6) x have r: "useragent_ip r = ip" "prev_is_null r" "main_is_null r"
    and wl: "\<not> is_whitelisted (strdup_ok env) (useragent_ip r) cfg" by auto
  from Cons.prems(5) x
  have t: "now env - node_timestamp (node_at ntt n) < blocking_period cfg"
    and rest: "within_hold (blocking_period cfg) (now env) (map (\<lambda>x. now (fst x)) rs)" by auto
  from Cons.prems(4) r have n: "ntt_find_in ntt (useragent_ip r) = Some n" by simp
  have step: "access_checker env cfg r = (http_reply cfg, ?cfg')"
    by (rule access_checker_held [OF Cons.prems(1) r(2,3) Cons.prems(2) wl n t])
  have valid: "valid_ptr ntt n"
    by (rule find_in_valid(1) [OF Cons.prems(3,4)])
  have same: "is_whitelisted d ip ?cfg' = is_whitelisted d ip cfg" for d
    using is_whitelisted_node_update [where f = ?f and d = d and ip = ip and cfg = cfg and n = n and ntt = ntt]
      cfg_hit_list_same [OF Cons.prems(2)]
    by simp
  have "fst (serve ?cfg' rs) = replicate (length rs) (http_reply ?cfg')"
  proof (rule Cons.IH)
    show "enabled ?cfg' \<noteq> 0" using Cons.prems(1) by simp
    show "hit_list ?cfg' = Some ?ntt'" by simp
    show "ntt_wf ?ntt'" using Cons.prems(3) by simp
    show "ntt_find_in ?ntt' ip = Some n" using Cons.prems(4) by (simp add: find_in_node_update)
    show "within_hold (blocking_period ?cfg') (node_timestamp (node_at ?ntt' n))
            (map (\<lambda>x. now (fst x)) rs)"
      using rest valid by (simp add: node_at_node_update)
    show "\<forall>(env, r) \<in> set rs. useragent_ip r = ip \<and> prev_is_null r \<and> main_is_null r
            \<and> \<not> is_whitelisted (strdup_ok env) ip ?cfg'"
      using Cons.prems(6) by (auto simp: same)
  qed
  with step x show ?case by (simp add: split_beta)
qed

lemma held_ntt_reached: "snd (ntt_insert True (ntt_create True True 50) ''1.2.3.4'' 0) = Some held_ntt"
  by code_simp

lemma seen_ntt_reached:
  "hit_list (snd (serve (ex_cfg (ntt_create True True 50)) [(ex_env 0, ex_req), (ex_env 0, ex_req)]))
     = Some seen_ntt"
  by code_simp

lemma held_ntt_wf: "ntt_wf held_ntt"
  by (simp add: ntt_wf_def held_ntt_def)

lemma held_ntt_find: "ntt_find_in held_ntt ''1.2.3.4'' = Some (27, 0)"
  by (simp add: ntt_find_in_def ntt_hashcode_def char_to_size_t_def held_ntt_def)

lemma held_ntt_node:
  "node_at held_ntt (27, 0) = \<lparr>node_key = ''1.2.3.4'', node_timestamp = 0, node_count = 0\<rparr>"
  by (simp add: node_at_def held_ntt_def)

lemma held_ntt_not_whitelisted: "\<not> is_whitelisted d ''1.2.3.4'' (cfg\<lparr>hit_list := Some held_ntt\<rparr>)"
  by (simp add: is_whitelisted_def whitelist_keys_def octet_def snprintf_def ntt_find_in_def
      ntt_hashcode_def char_to_size_t_def held_ntt_def)

lemma seen_ntt_find_ip: "ntt_find_in seen_ntt ''1.2.3.4'' = None"
  by (simp add: ntt_find_in_def ntt_hashcode_def char_to_size_t_def seen_ntt_def)

lemma uri_loop_iff:
  "uri_loop md i res u \<longleftrightarrow> (\<exists>j < length res. md (i + j) \<and> 0 \<le> (res ! j) u)"
proof (induction res arbitrary: i)
  case Nil
  then show ?case by simp
next
  case (Cons re res)
  have "(\<exists>j < length (re # res). md (i + j) \<and> 0 \<le> ((re # res) ! j) u) \<longleftrightarrow>
          (md i \<and> 0 \<le> re u) \<or> (\<exists>j < length res. md (Suc i + j) \<and> 0 \<le> (res ! j) u)"
    by (auto simp: less_Suc_eq_0_disj)
  with Cons.IH [of "Suc i"] show ?case by auto
qed

lemma is_uri_whitelisted_iff:
  "is_uri_whitelisted md u cfg \<longleftrightarrow>
     (\<exists>j < length (uri_whitelist cfg). md j \<and> 0 \<le> (uri_whitelist cfg ! j) u)"
  by (simp add: is_uri_whitelisted_def uri_loop_iff)

lemma empty_ntt_find: "ntt_find_in empty_ntt key = None"
proof -
  have "ntt_hashcode empty_ntt key < 53"
    using hashcode_less [of empty_ntt key] by (simp add: ntt_wf_def empty_ntt_def)
  then show ?thesis by (simp add: ntt_find_in_def empty_ntt_def)
qed

text \<open>
  Claim C5, as stated: a request whose path matches a pattern of the URI whitelist passes and
  is not counted when the address is not on hold. The pattern \<open>re_x\<close> is on the whitelist
  and matches \<open>/x\<close>, and the table holds nothing of the address \<open>1.2.3.4\<close>. When the match
  data of the pattern cannot be allocated, \<^verbatim>\<open>is_uri_whitelisted\<close> skips the pattern: the first
  request already makes entries in the table, and of four requests at time 0 the last is
  denied.
\<close>

theorem uri_match_counted_counterexample:
  "uri_whitelist (uri_cfg (Some empty_ntt)) = [re_x]
   \<and> 0 \<le> re_x (uri ex_req)
   \<and> ntt_find (Some empty_ntt) (useragent_ip ex_req) = None
   \<and> hit_list (snd (access_checker (no_match_data_env 0) (uri_cfg (Some empty_ntt)) ex_req))
       \<noteq> Some empty_ntt
   \<and> fst (serve (uri_cfg (Some empty_ntt))
          [(no_match_data_env 0, ex_req), (no_match_data_env 0, ex_req),
           (no_match_data_env 0, ex_req), (no_match_data_env 0, ex_req)])
       = [OK, OK, OK, HTTP_FORBIDDEN]"
proof -
  have "hit_list (snd (access_checker (no_match_data_env 0) (uri_cfg (Some empty_ntt)) ex_req))
       \<noteq> Some empty_ntt"
    by code_simp
  moreover have "fst (serve (uri_cfg (Some empty_ntt))
          [(no_match_data_env 0, ex_req), (no_match_data_env 0, ex_req),
           (no_match_data_env 0, ex_req), (no_match_data_env 0, ex_req)])
       = [OK, OK, OK, HTTP_FORBIDDEN]"
    by code_simp
  ultimately show ?thesis
    by (simp add: uri_cfg_def ex_cfg_def re_x_def ex_req_def empty_ntt_find)
qed

text \<open>
  Claim C5, amended: a request whose path matches a pattern of the URI whitelist for which
  the match data can be allocated (that is exactly when \<^verbatim>\<open>is_uri_whitelisted\<close> answers 1)
  gets \<^verbatim>\<open>OK\<close>, and the table stays as it is (no per-page or per-site entry is made or counted
  up), whenever the address is not on hold, whatever the table holds for it otherwise. When
  the address is on hold (and the checker is enabled, the request is a top-level one and the
  address is not whitelisted), the request gets the \<^verbatim>\<open>http_reply\<close> status and the hold's
  timestamp is set to the time of the request, although the path is on the URI whitelist.
\<close>

theorem uri_whitelist_below_hold:
  assumes "j < length (uri_whitelist cfg)" and "match_data_ok env j"
    and "0 \<le> (uri_whitelist cfg ! j) (uri r)"
  shows "is_uri_whitelisted (match_data_ok env) (uri r) cfg
    \<and> (is_uri_whitelisted md (uri r) cfg \<longleftrightarrow>
         (\<exists>i < length (uri_whitelist cfg). md i \<and> 0 \<le> (uri_whitelist cfg ! i) (uri r)))
    \<and> ((\<forall>ntt. hit_list cfg = Some ntt \<longrightarrow>
             on_hold ntt (useragent_ip r) (now env) (blocking_period cfg) = None) \<longrightarrow>
           access_checker env cfg r = (OK, cfg))
    \<and> (\<forall>ntt n. enabled cfg \<noteq> 0 \<and> prev_is_null r \<and> main_is_null r \<and> hit_list cfg = Some ntt
           \<and> \<not> is_whitelisted (strdup_ok env) (useragent_ip r) cfg
           \<and> on_hold ntt (useragent_ip r) (now env) (blocking_period cfg) = Some n \<longrightarrow>
         access_checker env cfg r =
           (http_reply cfg,
            cfg\<lparr>hit_list := Some (node_update n (\<lambda>x. x\<lparr>node_timestamp := now env\<rparr>) ntt)\<rparr>))"
proof (intro conjI impI allI)
  from assms show uri: "is_uri_whitelisted (match_data_ok env) (uri r) cfg"
    by (auto simp: is_uri_whitelisted_iff)
  show "is_uri_whitelisted md (uri r) cfg \<longleftrightarrow>
         (\<exists>i < length (uri_whitelist cfg). md i \<and> 0 \<le> (uri_whitelist cfg ! i) (uri r))"
    by (rule is_uri_whitelisted_iff)
  assume "\<forall>ntt. hit_list cfg = Some ntt \<longrightarrow>
            on_hold ntt (useragent_ip r) (now env) (blocking_period cfg) = None"
  with uri show "access_checker env cfg r = (OK, cfg)"
    by (simp add: access_checker_def hit_stats_uri split: option.splits)
next
  fix ntt n
  assume "enabled cfg \<noteq> 0 \<and> prev_is_null r \<and> main_is_null r \<and> hit_list cfg = Some ntt
           \<and> \<not> is_whitelisted (strdup_ok env) (useragent_ip r) cfg
           \<and> on_hold ntt (useragent_ip r) (now env) (blocking_period cfg) = Some n"
  then show "access_checker env cfg r =
           (http_reply cfg,
            cfg\<lparr>hit_list := Some (node_update n (\<lambda>x. x\<lparr>node_timestamp := now env\<rparr>) ntt)\<rparr>)"
    by (simp add: access_checker_def)
qed

text \<open>With \<open>/x\<close> on the URI whitelist and memory for the match data: a client inside its
  page window, with a count below the threshold, passes and is not counted; a client on hold
  at time 5 is denied and its hold renewed.\<close>

theorem uri_whitelist_below_hold_witness:
  "access_checker (ex_env 0) (uri_cfg (Some seen_ntt)) ex_req = (OK, uri_cfg (Some seen_ntt))
   \<and> access_checker (ex_env 5) (uri_cfg (Some held_ntt)) ex_req =
       (HTTP_FORBIDDEN,
        uri_cfg (Some (node_update (27, 0) (\<lambda>x. x\<lparr>node_timestamp := 5\<rparr>) held_ntt)))"
proof -
  have m1: "0 < length (uri_whitelist (uri_cfg tbl))"
    and m3: "0 \<le> (uri_whitelist (uri_cfg tbl) ! 0) (uri ex_req)" for tbl
    by (simp_all add: uri_cfg_def ex_req_def re_x_def)
  have m2: "match_data_ok (ex_env t) 0" for t
    by (simp add: ex_env_def)
  have a: "on_hold seen_ntt (useragent_ip ex_req) (now (ex_env 0))
             (blocking_period (uri_cfg (Some seen_ntt))) = None"
    by (simp add: on_hold_def seen_ntt_find_ip ex_req_def)
  have b: "on_hold held_ntt (useragent_ip ex_req) (now (ex_env 5))
             (blocking_period (uri_cfg (Some held_ntt))) = Some (27, 0)"
    by (simp add: on_hold_def held_ntt_find held_ntt_node ex_req_def ex_env_def uri_cfg_def ex_cfg_def)
  have c: "\<not> is_whitelisted (strdup_ok (ex_env 5)) (useragent_ip ex_req) (uri_cfg (Some held_ntt))"
    using held_ntt_not_whitelisted [of True "uri_cfg None"]
    by (simp add: ex_req_def ex_env_def uri_cfg_def ex_cfg_def)
  have h1: "hit_list (uri_cfg (Some seen_ntt)) = Some seen_ntt"
    and h2: "hit_list (uri_cfg (Some held_ntt)) = Some held_ntt"
    and en: "enabled (uri_cfg (Some held_ntt)) \<noteq> 0" "prev_is_null ex_req" "main_is_null ex_req"
    and rep: "http_reply (uri_cfg (Some held_ntt)) = HTTP_FORBIDDEN" "now (ex_env 5) = 5"
    by (simp_all add: uri_cfg_def ex_cfg_def ex_req_def ex_env_def)
  note i1 = uri_whitelist_below_hold [OF m1 [of "Some seen_ntt"] m2 [of 0] m3 [of "Some seen_ntt"],
      where md = "\<lambda>i. True"]
  note i2 = uri_whitelist_below_hold [OF m1 [of "Some held_ntt"] m2 [of 5] m3 [of "Some held_ntt"],
      where md = "\<lambda>i. True"]
  from i1 have "(\<forall>ntt. hit_list (uri_cfg (Some seen_ntt)) = Some ntt \<longrightarrow>
             on_hold ntt (useragent_ip ex_req) (now (ex_env 0))
               (blocking_period (uri_cfg (Some seen_ntt))) = None) \<longrightarrow>
           access_checker (ex_env 0) (uri_cfg (Some seen_ntt)) ex_req = (OK, uri_cfg (Some seen_ntt))"
    by (rule conjunct1 [OF conjunct2 [OF conjunct2]])
  with a h1 have 1: "access_checker (ex_env 0) (uri_cfg (Some seen_ntt)) ex_req
      = (OK, uri_cfg (Some seen_ntt))"
    by simp
  from i2 have "\<forall>ntt n. enabled (uri_cfg (Some held_ntt)) \<noteq> 0 \<and> prev_is_null ex_req
           \<and> main_is_null ex_req \<and> hit_list (uri_cfg (Some held_ntt)) = Some ntt
           \<and> \<not> is_whitelisted (strdup_ok (ex_env 5)) (useragent_ip ex_req) (uri_cfg (Some held_ntt))
           \<and> on_hold ntt (useragent_ip ex_req) (now (ex_env 5))
                 (blocking_period (uri_cfg (Some held_ntt))) = Some n \<longrightarrow>
         access_checker (ex_env 5) (uri_cfg (Some held_ntt)) ex_req =
           (http_reply (uri_cfg (Some held_ntt)),
            (uri_cfg (Some held_ntt))\<lparr>hit_list := Some (node_update n
                (\<lambda>x. x\<lparr>node_timestamp := now (ex_env 5)\<rparr>) held_ntt)\<rparr>)"
    using h2 by (auto dest: conjunct2)
  with en h2 b c have "access_checker (ex_env 5) (uri_cfg (Some held_ntt)) ex_req =
           (http_reply (uri_cfg (Some held_ntt)),
            (uri_cfg (Some held_ntt))\<lparr>hit_list := Some (node_update (27, 0)
                (\<lambda>x. x\<lparr>node_timestamp := now (ex_env 5)\<rparr>) held_ntt)\<rparr>)"
    by blast
  then have 2: "access_checker (ex_env 5) (uri_cfg (Some held_ntt)) ex_req =
       (HTTP_FORBIDDEN,
        uri_cfg (Some (node_update (27, 0) (\<lambda>x. x\<lparr>node_timestamp := 5\<rparr>) held_ntt)))"
    by (simp add: rep) (simp add: uri_cfg_def ex_cfg_def)
  from 1 2 show ?thesis by simp
qed

text \<open>
  Claim C2. The checker is enabled, the table is there, the request is a top-level one and
  its address is not whitelisted; \<^verbatim>\<open>ntt_find\<close> finds the entry \<open>n\<close> of the bare address.
  When the request comes less than \<^verbatim>\<open>blocking_period\<close> after the entry's timestamp,
  \<^verbatim>\<open>access_checker\<close> returns the \<^verbatim>\<open>http_reply\<close> status and sets that timestamp to the time of
  the request; nothing else in the table changes (the URI whitelist and the per-page and
  per-site blocks are not reached). A run of such requests, each less than
  \<^verbatim>\<open>blocking_period\<close> after the one before, is denied throughout, however long it is. When the
  request comes \<^verbatim>\<open>blocking_period\<close> or more after the timestamp, the hold does not apply:
  the verdict is the one of the hit statistics.
\<close>

theorem hold_renewed_by_traffic:
  assumes "enabled cfg \<noteq> 0" and "hit_list cfg = Some ntt" and "ntt_wf ntt"
    and "ntt_find (Some ntt) ip = Some n"
  shows "(useragent_ip r = ip \<and> prev_is_null r \<and> main_is_null r
            \<and> \<not> is_whitelisted (strdup_ok env) ip cfg
            \<and> now env - node_timestamp (node_at ntt n) < blocking_period cfg \<longrightarrow>
          (\<exists>ntt'. access_checker env cfg r = (http_reply cfg, cfg\<lparr>hit_list := Some ntt'\<rparr>)
             \<and> ntt_find (Some ntt') ip = Some n
             \<and> node_at ntt' n = (node_at ntt n)\<lparr>node_timestamp := now env\<rparr>
             \<and> (\<forall>m. m \<noteq> n \<longrightarrow> node_at ntt' m = node_at ntt m)
             \<and> ntt_items ntt' = ntt_items ntt
             \<and> map length (ntt_tbl ntt') = map length (ntt_tbl ntt)))
    \<and> (within_hold (blocking_period cfg) (node_timestamp (node_at ntt n)) (map (\<lambda>x. now (fst x)) rs)
          \<and> (\<forall>(env, r) \<in> set rs. useragent_ip r = ip \<and> prev_is_null r \<and> main_is_null r
                \<and> \<not> is_whitelisted (strdup_ok env) ip cfg) \<longrightarrow>
        fst (serve cfg rs) = replicate (length rs) (http_reply cfg))
    \<and> (useragent_ip r = ip \<and> prev_is_null r \<and> main_is_null r
            \<and> \<not> is_whitelisted (strdup_ok env) ip cfg
            \<and> blocking_period cfg \<le> now env - node_timestamp (node_at ntt n) \<longrightarrow>
        access_checker env cfg r = hit_stats env cfg r ntt)"
proof -
  from assms(4) have n: "ntt_find_in ntt ip = Some n" by simp
  have valid: "valid_ptr ntt n" by (rule find_in_valid(1) [OF assms(3) n])
  show ?thesis
  proof (intro conjI impI)
    assume a: "useragent_ip r = ip \<and> prev_is_null r \<and> main_is_null r
            \<and> \<not> is_whitelisted (strdup_ok env) ip cfg
            \<and> now env - node_timestamp (node_at ntt n) < blocking_period cfg"
    let ?f = "\<lambda>x. x\<lparr>node_timestamp := now env\<rparr>"
    let ?ntt' = "node_update n ?f ntt"
    have step: "access_checker env cfg r = (http_reply cfg, cfg\<lparr>hit_list := Some ?ntt'\<rparr>)"
      using access_checker_held [OF assms(1) _ _ assms(2), of r env n] a n by simp
    have len: "map length (ntt_tbl ?ntt') = map length (ntt_tbl ntt)"
      by (rule nth_equalityI) (simp_all add: chain_node_update)
    show "\<exists>ntt'. access_checker env cfg r = (http_reply cfg, cfg\<lparr>hit_list := Some ntt'\<rparr>)
             \<and> ntt_find (Some ntt') ip = Some n
             \<and> node_at ntt' n = (node_at ntt n)\<lparr>node_timestamp := now env\<rparr>
             \<and> (\<forall>m. m \<noteq> n \<longrightarrow> node_at ntt' m = node_at ntt m)
             \<and> ntt_items ntt' = ntt_items ntt
             \<and> map length (ntt_tbl ntt') = map length (ntt_tbl ntt)"
      using step n valid len
      by (intro exI [of _ ?ntt']) (simp add: find_in_node_update node_at_node_update)
  next
    assume "within_hold (blocking_period cfg) (node_timestamp (node_at ntt n)) (map (\<lambda>x. now (fst x)) rs)
          \<and> (\<forall>(env, r) \<in> set rs. useragent_ip r = ip \<and> prev_is_null r \<and> main_is_null r
                \<and> \<not> is_whitelisted (strdup_ok env) ip cfg)"
    then show "fst (serve cfg rs) = replicate (length rs) (http_reply cfg)"
      using held_stream [OF assms(1,2,3) n] by blast
  next
    assume a: "useragent_ip r = ip \<and> prev_is_null r \<and> main_is_null r
            \<and> \<not> is_whitelisted (strdup_ok env) ip cfg
            \<and> blocking_period cfg \<le> now env - node_timestamp (node_at ntt n)"
    with n have "on_hold ntt (useragent_ip r) (now env) (blocking_period cfg) = None"
      by (simp add: on_hold_None_iff)
    with a show "access_checker env cfg r = hit_stats env cfg r ntt"
      using access_checker_not_held [OF assms(1) _ _ assms(2), of r env] by simp
  qed
qed

text \<open>The address \<open>1.2.3.4\<close>, on hold since time 0 with a blocking period of 10: requests
  at the times 5, 12 and 21 are all denied; a single request at time 10 is judged by the hit
  statistics, and passes.\<close>

theorem hold_renewed_by_traffic_witness:
  "fst (access_checker (ex_env 5) (ex_cfg (Some held_ntt)) ex_req) = HTTP_FORBIDDEN
   \<and> fst (serve (ex_cfg (Some held_ntt)) [(ex_env 5, ex_req), (ex_env 12, ex_req), (ex_env 21, ex_req)])
       = [HTTP_FORBIDDEN, HTTP_FORBIDDEN, HTTP_FORBIDDEN]
   \<and> access_checker (ex_env 10) (ex_cfg (Some held_ntt)) ex_req
       = hit_stats (ex_env 10) (ex_cfg (Some held_ntt)) ex_req held_ntt
   \<and> fst (hit_stats (ex_env 10) (ex_cfg (Some held_ntt)) ex_req held_ntt) = OK"
proof -
  let ?cfg = "ex_cfg (Some held_ntt)"
  have en: "enabled ?cfg \<noteq> 0" and hl: "hit_list ?cfg = Some held_ntt"
    by (simp_all add: ex_cfg_def)
  have f: "ntt_find (Some held_ntt) ''1.2.3.4'' = Some (27, 0)"
    using held_ntt_find by simp
  have wl: "\<not> is_whitelisted d ''1.2.3.4'' ?cfg" for d
    using held_ntt_not_whitelisted [of d "ex_cfg None"] by (simp add: ex_cfg_def)
  note inst = hold_renewed_by_traffic [OF en hl held_ntt_wf f]
  have 1: "fst (access_checker (ex_env 5) ?cfg ex_req) = HTTP_FORBIDDEN"
    using inst [of ex_req "ex_env 5" "[]"] wl
    by (auto simp: held_ntt_node ex_req_def ex_env_def ex_cfg_def)
  have 2: "fst (serve ?cfg [(ex_env 5, ex_req), (ex_env 12, ex_req), (ex_env 21, ex_req)])
       = [HTTP_FORBIDDEN, HTTP_FORBIDDEN, HTTP_FORBIDDEN]"
    using inst [of ex_req "ex_env 5" "[(ex_env 5, ex_req), (ex_env 12, ex_req), (ex_env 21, ex_req)]"] wl
    by (simp add: held_ntt_node ex_req_def ex_env_def ex_cfg_def)
  have 3: "access_checker (ex_env 10) ?cfg ex_req = hit_stats (ex_env 10) ?cfg ex_req held_ntt"
    using inst [of ex_req "ex_env 10" "[]"] wl
    by (simp add: held_ntt_node ex_req_def ex_env_def ex_cfg_def)
  have 4: "fst (hit_stats (ex_env 10) ?cfg ex_req held_ntt) = OK"
    by code_simp
  from 1 2 3 4 show ?thesis by simp
qed

section \<open>The windows (claims C4, C9 and C1)\<close>

subsection \<open>A block in terms of the entries found\<close>




lemma hit_check_fst_cases:
  "fst (hit_check a ip key iv c t reply (ret, ntt)) = ret
   \<or> fst (hit_check a ip key iv c t reply (ret, ntt)) = reply"
  by (simp add: hit_check_def Let_def split_beta split: option.splits)

lemma hit_check_wf:
  assumes "ntt_wf ntt"
  shows "ntt_wf (snd (hit_check a ip key iv c t reply (ret, ntt)))"
  using assms by (simp add: hit_check_def Let_def split_beta wf_insert_in split: option.splits)

lemma hit_check_absent_lookup:
  assumes wf: "ntt_wf ntt" and none: "ntt_lookup ntt key = None" and items: "ntt_items ntt \<noteq> SIZE_MAX"
  shows "fst (hit_check True ip key iv c t reply (ret, ntt)) = ret"
    and "ntt_lookup (snd (hit_check True ip key iv c t reply (ret, ntt))) =
           (ntt_lookup ntt)(key \<mapsto> \<lparr>node_key = key, node_timestamp = t, node_count = 0\<rparr>)"
    and "ntt_items (snd (hit_check True ip key iv c t reply (ret, ntt))) = ntt_items ntt + 1"
proof -
  from none have f: "ntt_find_in ntt key = None" by (simp add: lookup_None_iff)
  show "fst (hit_check True ip key iv c t reply (ret, ntt)) = ret"
    by (simp add: hit_check_absent [OF f])
  show "ntt_lookup (snd (hit_check True ip key iv c t reply (ret, ntt))) =
           (ntt_lookup ntt)(key \<mapsto> \<lparr>node_key = key, node_timestamp = t, node_count = 0\<rparr>)"
    using items by (simp add: hit_check_absent [OF f] lookup_insert_in [OF wf])
  show "ntt_items (snd (hit_check True ip key iv c t reply (ret, ntt))) = ntt_items ntt + 1"
    using items f by (simp add: hit_check_absent [OF f] items_insert_in)
qed

lemma hit_check_pass_lookup:
  assumes wf: "ntt_wf ntt" and e: "ntt_lookup ntt key = Some e"
    and pass: "\<not> (t - node_timestamp e < iv \<and> ucast c \<le> node_count e)"
  shows "fst (hit_check a ip key iv c t reply (ret, ntt)) = ret"
    and "ntt_lookup (snd (hit_check a ip key iv c t reply (ret, ntt))) =
           (ntt_lookup ntt)(key \<mapsto> e\<lparr>node_timestamp := t,
              node_count := (if iv \<le> t - node_timestamp e then 0 else node_count e) + 1\<rparr>)"
    and "ntt_items (snd (hit_check a ip key iv c t reply (ret, ntt))) = ntt_items ntt"
proof -
  from e obtain n where n: "ntt_find_in ntt key = Some n" and at: "node_at ntt n = e"
    by (auto dest: lookup_SomeD)
  show "fst (hit_check a ip key iv c t reply (ret, ntt)) = ret"
    and "ntt_lookup (snd (hit_check a ip key iv c t reply (ret, ntt))) =
           (ntt_lookup ntt)(key \<mapsto> e\<lparr>node_timestamp := t,
              node_count := (if iv \<le> t - node_timestamp e then 0 else node_count e) + 1\<rparr>)"
    and "ntt_items (snd (hit_check a ip key iv c t reply (ret, ntt))) = ntt_items ntt"
  proof (atomize (full), cases "iv \<le> t - node_timestamp e")
    case True
    then have "iv \<le> t - node_timestamp (node_at ntt n)" by (simp add: at)
    from hit_check_expired [OF n this] True at
    show "fst (hit_check a ip key iv c t reply (ret, ntt)) = ret \<and>
      ntt_lookup (snd (hit_check a ip key iv c t reply (ret, ntt))) =
           (ntt_lookup ntt)(key \<mapsto> e\<lparr>node_timestamp := t,
              node_count := (if iv \<le> t - node_timestamp e then 0 else node_count e) + 1\<rparr>) \<and>
      ntt_items (snd (hit_check a ip key iv c t reply (ret, ntt))) = ntt_items ntt"
      by (simp add: lookup_node_update [OF wf n])
  next
    case False
    with pass have "t - node_timestamp (node_at ntt n) < iv"
      and "node_count (node_at ntt n) < ucast c" by (auto simp: at not_le)
    from hit_check_within [OF n this] False at
    show "fst (hit_check a ip key iv c t reply (ret, ntt)) = ret \<and>
      ntt_lookup (snd (hit_check a ip key iv c t reply (ret, ntt))) =
           (ntt_lookup ntt)(key \<mapsto> e\<lparr>node_timestamp := t,
              node_count := (if iv \<le> t - node_timestamp e then 0 else node_count e) + 1\<rparr>) \<and>
      ntt_items (snd (hit_check a ip key iv c t reply (ret, ntt))) = ntt_items ntt"
      by (simp add: lookup_node_update [OF wf n])
  qed
qed

lemma hit_check_deny_ret:
  assumes e: "ntt_lookup ntt key = Some e"
    and "t - node_timestamp e < iv" and "ucast c \<le> node_count e"
  shows "fst (hit_check a ip key iv c t reply (ret, ntt)) = reply"
proof -
  from e obtain n where n: "ntt_find_in ntt key = Some n" and at: "node_at ntt n = e"
    by (auto dest: lookup_SomeD)
  from hit_check_deny [OF n] assms(2,3) at show ?thesis by simp
qed

lemma hit_stats_counted:
  assumes "\<not> is_uri_whitelisted (match_data_ok env) (uri r) cfg"
    and "P = hit_check (page_node_ok env) (useragent_ip r) (page_key r)
               (page_interval cfg) (page_count cfg) (now env) (http_reply cfg) (OK, ntt)"
    and "S = hit_check (site_node_ok env) (useragent_ip r) (site_key r)
               (site_interval cfg) (site_count cfg) (now env) (http_reply cfg) (fst P, snd P)"
  shows "hit_stats env cfg r ntt = (fst S, cfg\<lparr>hit_list := Some (snd S)\<rparr>)"
  using assms by (simp add: hit_stats_def split_beta)

lemma is_whitelisted_lookup:
  "hit_list cfg = Some ntt \<Longrightarrow>
     is_whitelisted d ip cfg \<longleftrightarrow> d \<and> (\<exists>k \<in> set (whitelist_keys ip). ntt_lookup ntt k \<noteq> None)"
  by (simp add: is_whitelisted_iff ntt_lookup_def)

lemma on_hold_lookup_None: "ntt_lookup ntt ip = None \<Longrightarrow> on_hold ntt ip t p = None"
  by (simp add: on_hold_def ntt_lookup_def)

lemma unat_ucast_count: "unat (ucast (c :: 32 word) :: size_t) = unat c"
proof -
  have "unat c < 2 ^ 32" using unsigned_less [of c] by simp
  then have "unat c < 2 ^ 64" by simp
  then show ?thesis by (simp add: unsigned_ucast_eq take_bit_nat_eq_self)
qed

lemma ucast_count_le: "(ucast (c :: 32 word) :: size_t) \<le> x \<longleftrightarrow> unat c \<le> unat x"
  by (simp add: word_le_nat_alt unat_ucast_count)

subsection \<open>The edge of a window\<close>


lemma edge_ntt_wf: "ntt_wf edge_ntt"
  by (simp add: ntt_wf_def edge_ntt_def)

lemma edge_ntt_find:
  "ntt_find_in edge_ntt ''1.2.3.4'' = Some (27, 0)"
  "ntt_find_in edge_ntt ''1.2.3.4_/x'' = Some (10, 0)"
  "ntt_find_in edge_ntt ''1.2.3.4_SITE'' = Some (36, 0)"
  by (simp_all add: ntt_find_in_def ntt_hashcode_def char_to_size_t_def edge_ntt_def)

lemma edge_ntt_node:
  "node_at edge_ntt (27, 0) = \<lparr>node_key = ''1.2.3.4'', node_timestamp = 0, node_count = 0\<rparr>"
  "node_at edge_ntt (10, 0) = \<lparr>node_key = ''1.2.3.4_/x'', node_timestamp = 9, node_count = 5\<rparr>"
  "node_at edge_ntt (36, 0) = \<lparr>node_key = ''1.2.3.4_SITE'', node_timestamp = 9, node_count = 70\<rparr>"
  by (simp_all add: node_at_def edge_ntt_def)

lemma edge_ntt_not_whitelisted:
  "\<not> is_whitelisted d ''1.2.3.4'' (cfg\<lparr>hit_list := Some edge_ntt\<rparr>)"
  by (simp add: is_whitelisted_def whitelist_keys_def octet_def snprintf_def ntt_find_in_def
      ntt_hashcode_def char_to_size_t_def edge_ntt_def)

text \<open>
  Claim C4. A window is open exactly while \<open>now - timestamp\<close> is strictly below its length.
  The hold test gives the pointer of the address's entry exactly when the entry is there
  and the difference is below the blocking period; inside it a request of an active checker
  is denied. A per-page or per-site block on an entry it finds: with the difference below the
  interval and the count at or above the threshold it returns the reply status (and inserts
  the bare address); with the difference below the interval and the count below the threshold
  it keeps the count and adds one; with the difference at or above the interval it returns
  the verdict it was given, whatever the count, and leaves the count 1 (reset to 0, then
  incremented). In particular, when the difference equals the length, the hold test fails and
  the block does not deny; for a whole request on the edge of all three windows,
  \<^verbatim>\<open>access_checker\<close> returns \<^verbatim>\<open>OK\<close> and both entries have the count 1.
\<close>

theorem window_edge_is_expired:
  assumes "ntt_wf ntt"
  shows "(ntt_find (Some ntt) ip = Some n \<and> t - node_timestamp (node_at ntt n) = period \<longrightarrow>
            on_hold ntt ip t period = None)
    \<and> (ntt_find (Some ntt) key = Some n \<and> t - node_timestamp (node_at ntt n) = interval \<longrightarrow>
         hit_check a ip key interval cnt t reply (ret, ntt) =
           (ret, node_update n (\<lambda>x. x\<lparr>node_timestamp := t, node_count := 1\<rparr>) ntt))
    \<and> (enabled cfg \<noteq> 0 \<and> prev_is_null r \<and> main_is_null r \<and> hit_list cfg = Some ntt
          \<and> \<not> is_whitelisted (strdup_ok env) (useragent_ip r) cfg
          \<and> \<not> is_uri_whitelisted (match_data_ok env) (uri r) cfg
          \<and> page_key r \<noteq> site_key r
          \<and> ntt_find (Some ntt) (useragent_ip r) = Some h
          \<and> now env - node_timestamp (node_at ntt h) = blocking_period cfg
          \<and> ntt_find (Some ntt) (page_key r) = Some p
          \<and> now env - node_timestamp (node_at ntt p) = page_interval cfg
          \<and> ntt_find (Some ntt) (site_key r) = Some s
          \<and> now env - node_timestamp (node_at ntt s) = site_interval cfg \<longrightarrow>
        access_checker env cfg r =
          (OK, cfg\<lparr>hit_list := Some
             (node_update s (\<lambda>x. x\<lparr>node_timestamp := now env, node_count := 1\<rparr>)
               (node_update p (\<lambda>x. x\<lparr>node_timestamp := now env, node_count := 1\<rparr>) ntt))\<rparr>))
    \<and> (on_hold ntt ip t period = Some n \<longleftrightarrow>
         ntt_find (Some ntt) ip = Some n \<and> t - node_timestamp (node_at ntt n) < period)
    \<and> (on_hold ntt ip t period = None \<longleftrightarrow>
         (\<forall>m. ntt_find (Some ntt) ip = Some m \<longrightarrow> period \<le> t - node_timestamp (node_at ntt m)))
    \<and> (enabled cfg \<noteq> 0 \<and> prev_is_null r \<and> main_is_null r \<and> hit_list cfg = Some ntt
          \<and> \<not> is_whitelisted (strdup_ok env) (useragent_ip r) cfg
          \<and> ntt_find (Some ntt) (useragent_ip r) = Some h
          \<and> now env - node_timestamp (node_at ntt h) < blocking_period cfg \<longrightarrow>
        access_checker env cfg r =
          (http_reply cfg,
           cfg\<lparr>hit_list := Some (node_update h (\<lambda>x. x\<lparr>node_timestamp := now env\<rparr>) ntt)\<rparr>))
    \<and> (ntt_find (Some ntt) key = Some n \<and> interval \<le> t - node_timestamp (node_at ntt n) \<longrightarrow>
         hit_check a ip key interval cnt t reply (ret, ntt) =
           (ret, node_update n (\<lambda>x. x\<lparr>node_timestamp := t, node_count := 1\<rparr>) ntt))
    \<and> (ntt_find (Some ntt) key = Some n \<and> t - node_timestamp (node_at ntt n) < interval
          \<and> node_count (node_at ntt n) < ucast cnt \<longrightarrow>
         hit_check a ip key interval cnt t reply (ret, ntt) =
           (ret, node_update n
                   (\<lambda>x. x\<lparr>node_timestamp := t, node_count := node_count x + 1\<rparr>) ntt))
    \<and> (ntt_find (Some ntt) key = Some n \<and> t - node_timestamp (node_at ntt n) < interval
          \<and> ucast cnt \<le> node_count (node_at ntt n) \<longrightarrow>
         hit_check a ip key interval cnt t reply (ret, ntt) =
           (reply, node_update n
                     (\<lambda>x. x\<lparr>node_timestamp := t, node_count := node_count x + 1\<rparr>)
                     (snd (ntt_insert_in a ntt ip t))))
    \<and> (ntt_find (Some ntt) key = None \<longrightarrow>
         hit_check a ip key interval cnt t reply (ret, ntt) =
           (ret, snd (ntt_insert_in a ntt key t)))"
proof -
  have c1: "ntt_find (Some ntt) ip = Some n \<and> t - node_timestamp (node_at ntt n) = period \<longrightarrow>
            on_hold ntt ip t period = None"
    by (simp add: on_hold_def)
  have c2: "ntt_find (Some ntt) key = Some n \<and> t - node_timestamp (node_at ntt n) = interval \<longrightarrow>
         hit_check a ip key interval cnt t reply (ret, ntt) =
           (ret, node_update n (\<lambda>x. x\<lparr>node_timestamp := t, node_count := 1\<rparr>) ntt)"
    by (simp add: hit_check_expired)
  have c3: "enabled cfg \<noteq> 0 \<and> prev_is_null r \<and> main_is_null r \<and> hit_list cfg = Some ntt
          \<and> \<not> is_whitelisted (strdup_ok env) (useragent_ip r) cfg
          \<and> \<not> is_uri_whitelisted (match_data_ok env) (uri r) cfg
          \<and> page_key r \<noteq> site_key r
          \<and> ntt_find (Some ntt) (useragent_ip r) = Some h
          \<and> now env - node_timestamp (node_at ntt h) = blocking_period cfg
          \<and> ntt_find (Some ntt) (page_key r) = Some p
          \<and> now env - node_timestamp (node_at ntt p) = page_interval cfg
          \<and> ntt_find (Some ntt) (site_key r) = Some s
          \<and> now env - node_timestamp (node_at ntt s) = site_interval cfg \<longrightarrow>
        access_checker env cfg r =
          (OK, cfg\<lparr>hit_list := Some
             (node_update s (\<lambda>x. x\<lparr>node_timestamp := now env, node_count := 1\<rparr>)
               (node_update p (\<lambda>x. x\<lparr>node_timestamp := now env, node_count := 1\<rparr>) ntt))\<rparr>)"
  proof
    let ?one = "\<lambda>x. x\<lparr>node_timestamp := now env, node_count := 1\<rparr>"
    let ?ntt1 = "node_update p ?one ntt"
    assume a: "enabled cfg \<noteq> 0 \<and> prev_is_null r \<and> main_is_null r \<and> hit_list cfg = Some ntt
          \<and> \<not> is_whitelisted (strdup_ok env) (useragent_ip r) cfg
          \<and> \<not> is_uri_whitelisted (match_data_ok env) (uri r) cfg
          \<and> page_key r \<noteq> site_key r
          \<and> ntt_find (Some ntt) (useragent_ip r) = Some h
          \<and> now env - node_timestamp (node_at ntt h) = blocking_period cfg
          \<and> ntt_find (Some ntt) (page_key r) = Some p
          \<and> now env - node_timestamp (node_at ntt p) = page_interval cfg
          \<and> ntt_find (Some ntt) (site_key r) = Some s
          \<and> now env - node_timestamp (node_at ntt s) = site_interval cfg"
    then have p: "ntt_find_in ntt (page_key r) = Some p" and s: "ntt_find_in ntt (site_key r) = Some s"
      by simp_all
    from a have hold: "on_hold ntt (useragent_ip r) (now env) (blocking_period cfg) = None"
      by (simp add: on_hold_def)
    from find_in_valid(2) [OF assms p] find_in_valid(2) [OF assms s] a have ne: "s \<noteq> p" by auto
    have page: "hit_check (page_node_ok env) (useragent_ip r) (page_key r)
                 (page_interval cfg) (page_count cfg) (now env) (http_reply cfg) (OK, ntt) = (OK, ?ntt1)"
      using a by (intro hit_check_expired [OF p]) simp
    have s1: "ntt_find_in ?ntt1 (site_key r) = Some s"
      using s by (simp add: find_in_node_update)
    have "node_at ?ntt1 s = node_at ntt s"
      using ne by (simp add: node_at_node_update)
    then have "site_interval cfg \<le> now env - node_timestamp (node_at ?ntt1 s)"
      using a by simp
    from hit_check_expired [OF s1 this]
    have site: "hit_check (site_node_ok env) (useragent_ip r) (site_key r)
                 (site_interval cfg) (site_count cfg) (now env) (http_reply cfg) (OK, ?ntt1) =
                 (OK, node_update s ?one ?ntt1)" .
    from a hold have "access_checker env cfg r = hit_stats env cfg r ntt"
      by (intro access_checker_not_held) simp_all
    with a page site show "access_checker env cfg r =
            (OK, cfg\<lparr>hit_list := Some (node_update s ?one ?ntt1)\<rparr>)"
      by (simp add: hit_stats_def)
  qed
  have c4: "on_hold ntt ip t period = Some n \<longleftrightarrow>
         ntt_find (Some ntt) ip = Some n \<and> t - node_timestamp (node_at ntt n) < period"
    by (simp add: on_hold_Some_iff)
  have c5: "on_hold ntt ip t period = None \<longleftrightarrow>
         (\<forall>m. ntt_find (Some ntt) ip = Some m \<longrightarrow> period \<le> t - node_timestamp (node_at ntt m))"
    by (simp add: on_hold_None_iff)
  have c6: "enabled cfg \<noteq> 0 \<and> prev_is_null r \<and> main_is_null r \<and> hit_list cfg = Some ntt
          \<and> \<not> is_whitelisted (strdup_ok env) (useragent_ip r) cfg
          \<and> ntt_find (Some ntt) (useragent_ip r) = Some h
          \<and> now env - node_timestamp (node_at ntt h) < blocking_period cfg \<longrightarrow>
        access_checker env cfg r =
          (http_reply cfg,
           cfg\<lparr>hit_list := Some (node_update h (\<lambda>x. x\<lparr>node_timestamp := now env\<rparr>) ntt)\<rparr>)"
    using access_checker_held [of cfg r ntt env h] by simp
  have c7: "ntt_find (Some ntt) key = Some n \<and> interval \<le> t - node_timestamp (node_at ntt n) \<longrightarrow>
         hit_check a ip key interval cnt t reply (ret, ntt) =
           (ret, node_update n (\<lambda>x. x\<lparr>node_timestamp := t, node_count := 1\<rparr>) ntt)"
    by (simp add: hit_check_expired)
  have c8: "ntt_find (Some ntt) key = Some n \<and> t - node_timestamp (node_at ntt n) < interval
          \<and> node_count (node_at ntt n) < ucast cnt \<longrightarrow>
         hit_check a ip key interval cnt t reply (ret, ntt) =
           (ret, node_update n
                   (\<lambda>x. x\<lparr>node_timestamp := t, node_count := node_count x + 1\<rparr>) ntt)"
    by (simp add: hit_check_within)
  have c9: "ntt_find (Some ntt) key = Some n \<and> t - node_timestamp (node_at ntt n) < interval
          \<and> ucast cnt \<le> node_count (node_at ntt n) \<longrightarrow>
         hit_check a ip key interval cnt t reply (ret, ntt) =
           (reply, node_update n
                     (\<lambda>x. x\<lparr>node_timestamp := t, node_count := node_count x + 1\<rparr>)
                     (snd (ntt_insert_in a ntt ip t)))"
    by (simp add: hit_check_deny)
  have c10: "ntt_find (Some ntt) key = None \<longrightarrow>
         hit_check a ip key interval cnt t reply (ret, ntt) =
           (ret, snd (ntt_insert_in a ntt key t))"
    by (simp add: hit_check_absent)
  from c1 c2 c3 c4 c5 c6 c7 c8 c9 c10 show ?thesis by (intro conjI)
qed

text \<open>The request of the example on the table \<open>edge_ntt\<close>. At time 10, exactly 10 seconds
  after the hold began and exactly 1 second after the last hit, with counts of 5 and 70
  against the thresholds 2 and 50, it passes and both counts become 1. At time 9, one second
  earlier, the hold test gives the entry of the address and the checker denies; the per-page
  block by itself denies as well.\<close>

theorem window_edge_is_expired_witness:
  "on_hold edge_ntt ''1.2.3.4'' 10 10 = None
   \<and> access_checker (ex_env 10) (ex_cfg (Some edge_ntt)) ex_req =
       (OK, ex_cfg (Some
          (node_update (36, 0) (\<lambda>x. x\<lparr>node_timestamp := 10, node_count := 1\<rparr>)
            (node_update (10, 0) (\<lambda>x. x\<lparr>node_timestamp := 10, node_count := 1\<rparr>) edge_ntt))))
   \<and> on_hold edge_ntt ''1.2.3.4'' 9 10 = Some (27, 0)
   \<and> fst (access_checker (ex_env 9) (ex_cfg (Some edge_ntt)) ex_req) = HTTP_FORBIDDEN
   \<and> fst (hit_check True ''1.2.3.4'' ''1.2.3.4_/x'' 1 2 9 HTTP_FORBIDDEN (OK, edge_ntt))
       = HTTP_FORBIDDEN"
proof -
  let ?cfg = "ex_cfg (Some edge_ntt)"
  have wl: "\<not> is_whitelisted (strdup_ok (ex_env t)) (useragent_ip ex_req) ?cfg" for t
    using edge_ntt_not_whitelisted [of True "ex_cfg None"] by (simp add: ex_cfg_def ex_req_def ex_env_def)
  have uri: "\<not> is_uri_whitelisted (match_data_ok (ex_env 10)) (uri ex_req) ?cfg"
    by (simp add: is_uri_whitelisted_def ex_cfg_def)
  have keys: "useragent_ip ex_req = ''1.2.3.4''" "page_key ex_req = ''1.2.3.4_/x''"
    "site_key ex_req = ''1.2.3.4_SITE''"
    by (simp_all add: ex_req_def page_key_def site_key_def snprintf_def)
  have cfg: "enabled ?cfg \<noteq> 0" "hit_list ?cfg = Some edge_ntt" "blocking_period ?cfg = 10"
    "page_interval ?cfg = 1" "site_interval ?cfg = 1" "http_reply ?cfg = HTTP_FORBIDDEN"
    by (simp_all add: ex_cfg_def)
  have req: "prev_is_null ex_req" "main_is_null ex_req" "now (ex_env t) = t" for t
    by (simp_all add: ex_req_def ex_env_def)
  have five: "(ucast (2 :: 32 word) :: size_t) \<le> 5"
    by (simp add: word_le_nat_alt)
  note at10 = window_edge_is_expired [OF edge_ntt_wf, where ip = "''1.2.3.4''" and n = "(27, 0)"
      and t = 10 and period = 10 and cfg = ?cfg and r = ex_req and env = "ex_env 10"
      and h = "(27, 0)" and p = "(10, 0)" and s = "(36, 0)"]
  note at9 = window_edge_is_expired [OF edge_ntt_wf, where ip = "''1.2.3.4''" and n = "(27, 0)"
      and t = 9 and period = 10 and cfg = ?cfg and r = ex_req and env = "ex_env 9"
      and h = "(27, 0)"]
  note blk9 = window_edge_is_expired [OF edge_ntt_wf, where ip = "''1.2.3.4''" and n = "(10, 0)"
      and t = 9 and key = "''1.2.3.4_/x''" and interval = 1 and a = True and cnt = 2
      and reply = HTTP_FORBIDDEN and ret = OK]
  have 1: "on_hold edge_ntt ''1.2.3.4'' 10 10 = None"
    using at10 [THEN conjunct1] by (simp add: edge_ntt_find edge_ntt_node)
  have 2: "access_checker (ex_env 10) ?cfg ex_req =
       (OK, ?cfg\<lparr>hit_list := Some
          (node_update (36, 0) (\<lambda>x. x\<lparr>node_timestamp := 10, node_count := 1\<rparr>)
            (node_update (10, 0) (\<lambda>x. x\<lparr>node_timestamp := 10, node_count := 1\<rparr>) edge_ntt))\<rparr>)"
    using at10 [THEN conjunct2, THEN conjunct2, THEN conjunct1] wl [of 10] uri
    by (simp add: keys cfg req edge_ntt_find edge_ntt_node)
  have 3: "on_hold edge_ntt ''1.2.3.4'' 9 10 = Some (27, 0)"
    using at9 [THEN conjunct2, THEN conjunct2, THEN conjunct2, THEN conjunct1]
    by (simp add: edge_ntt_find edge_ntt_node)
  have 4: "fst (access_checker (ex_env 9) ?cfg ex_req) = HTTP_FORBIDDEN"
    using at9 [THEN conjunct2, THEN conjunct2, THEN conjunct2, THEN conjunct2, THEN conjunct2,
        THEN conjunct1] wl [of 9]
    by (simp add: keys cfg req edge_ntt_find edge_ntt_node)
  have 5: "fst (hit_check True ''1.2.3.4'' ''1.2.3.4_/x'' 1 2 9 HTTP_FORBIDDEN (OK, edge_ntt))
       = HTTP_FORBIDDEN"
    using blk9 [THEN conjunct2, THEN conjunct2, THEN conjunct2, THEN conjunct2, THEN conjunct2,
        THEN conjunct2, THEN conjunct2, THEN conjunct2, THEN conjunct1] five
    by (simp add: edge_ntt_find edge_ntt_node)
  from 1 2 3 4 5 show ?thesis by (simp add: ex_cfg_def)
qed

subsection \<open>Failing inserts\<close>









lemma ex_req_keys:
  "useragent_ip ex_req = ''1.2.3.4''" "page_key ex_req = ''1.2.3.4_/x''"
  "site_key ex_req = ''1.2.3.4_SITE''"
  by (simp_all add: ex_req_def page_key_def site_key_def snprintf_def)


subsection \<open>Whole requests\<close>


lemma is_uri_whitelisted_hit_list [simp]:
  "is_uri_whitelisted md u (cfg\<lparr>hit_list := x\<rparr>) = is_uri_whitelisted md u cfg"
  by (simp add: is_uri_whitelisted_def)

text \<open>A request that finds neither its page key nor its site key, with room and memory for
  both nodes.\<close>

lemma first_hit_step:
  assumes act: "enabled cfg \<noteq> 0" "prev_is_null r" "main_is_null r" "hit_list cfg = Some ntt"
    and wf: "ntt_wf ntt"
    and nwl: "\<not> is_whitelisted (strdup_ok env) (useragent_ip r) cfg"
    and nuri: "\<not> is_uri_whitelisted (match_data_ok env) (uri r) cfg"
    and ne: "page_key r \<noteq> site_key r"
    and ip: "ntt_lookup ntt (useragent_ip r) = None"
    and pk: "ntt_lookup ntt (page_key r) = None"
    and sk: "ntt_lookup ntt (site_key r) = None"
    and mem: "page_node_ok env" "site_node_ok env"
    and room: "ntt_items ntt \<noteq> SIZE_MAX" "ntt_items ntt + 1 \<noteq> SIZE_MAX"
  shows "\<exists>ntt'. access_checker env cfg r = (OK, cfg\<lparr>hit_list := Some ntt'\<rparr>) \<and> ntt_wf ntt'
           \<and> ntt_lookup ntt' = (ntt_lookup ntt)
                (page_key r \<mapsto> \<lparr>node_key = page_key r, node_timestamp = now env, node_count = 0\<rparr>,
                 site_key r \<mapsto> \<lparr>node_key = site_key r, node_timestamp = now env, node_count = 0\<rparr>)"
proof -
  define P where "P = hit_check (page_node_ok env) (useragent_ip r) (page_key r)
               (page_interval cfg) (page_count cfg) (now env) (http_reply cfg) (OK, ntt)"
  define S where "S = hit_check (site_node_ok env) (useragent_ip r) (site_key r)
               (site_interval cfg) (site_count cfg) (now env) (http_reply cfg) (fst P, snd P)"
  have P: "fst P = OK" "ntt_wf (snd P)"
    "ntt_lookup (snd P) = (ntt_lookup ntt)
       (page_key r \<mapsto> \<lparr>node_key = page_key r, node_timestamp = now env, node_count = 0\<rparr>)"
    "ntt_items (snd P) = ntt_items ntt + 1"
    using hit_check_absent_lookup [OF wf pk room(1)] hit_check_wf [OF wf] mem(1)
    by (simp_all add: P_def)
  have sk': "ntt_lookup (snd P) (site_key r) = None"
    using sk ne by (simp add: P(3))
  have items: "ntt_items (snd P) \<noteq> SIZE_MAX" using room(2) by (simp add: P(4))
  have S: "fst S = OK" "ntt_wf (snd S)"
    "ntt_lookup (snd S) = (ntt_lookup (snd P))
       (site_key r \<mapsto> \<lparr>node_key = site_key r, node_timestamp = now env, node_count = 0\<rparr>)"
    using hit_check_absent_lookup [OF P(2) sk' items] hit_check_wf [OF P(2)] mem(2) P(1)
    by (simp_all add: S_def)
  have "access_checker env cfg r = hit_stats env cfg r ntt"
    by (rule access_checker_not_held [OF act nwl on_hold_lookup_None [OF ip]])
  also have "\<dots> = (fst S, cfg\<lparr>hit_list := Some (snd S)\<rparr>)"
    by (rule hit_stats_counted [OF nuri P_def S_def])
  finally show ?thesis using S P(3) by auto
qed

text \<open>A request that finds both keys and is within neither threshold.\<close>

lemma counted_hit_step:
  assumes act: "enabled cfg \<noteq> 0" "prev_is_null r" "main_is_null r" "hit_list cfg = Some ntt"
    and wf: "ntt_wf ntt"
    and nwl: "\<not> is_whitelisted (strdup_ok env) (useragent_ip r) cfg"
    and nuri: "\<not> is_uri_whitelisted (match_data_ok env) (uri r) cfg"
    and ne: "page_key r \<noteq> site_key r"
    and ip: "ntt_lookup ntt (useragent_ip r) = None"
    and pk: "ntt_lookup ntt (page_key r) = Some ep"
    and sk: "ntt_lookup ntt (site_key r) = Some es"
    and ppass: "\<not> (now env - node_timestamp ep < page_interval cfg \<and> ucast (page_count cfg) \<le> node_count ep)"
    and spass: "\<not> (now env - node_timestamp es < site_interval cfg \<and> ucast (site_count cfg) \<le> node_count es)"
  shows "\<exists>ntt'. access_checker env cfg r = (OK, cfg\<lparr>hit_list := Some ntt'\<rparr>) \<and> ntt_wf ntt'
           \<and> ntt_lookup ntt' = (ntt_lookup ntt)
                (page_key r \<mapsto> ep\<lparr>node_timestamp := now env,
                   node_count := (if page_interval cfg \<le> now env - node_timestamp ep then 0 else node_count ep) + 1\<rparr>,
                 site_key r \<mapsto> es\<lparr>node_timestamp := now env,
                   node_count := (if site_interval cfg \<le> now env - node_timestamp es then 0 else node_count es) + 1\<rparr>)"
proof -
  define P where "P = hit_check (page_node_ok env) (useragent_ip r) (page_key r)
               (page_interval cfg) (page_count cfg) (now env) (http_reply cfg) (OK, ntt)"
  define S where "S = hit_check (site_node_ok env) (useragent_ip r) (site_key r)
               (site_interval cfg) (site_count cfg) (now env) (http_reply cfg) (fst P, snd P)"
  have P: "fst P = OK" "ntt_wf (snd P)"
    "ntt_lookup (snd P) = (ntt_lookup ntt)
       (page_key r \<mapsto> ep\<lparr>node_timestamp := now env,
          node_count := (if page_interval cfg \<le> now env - node_timestamp ep then 0 else node_count ep) + 1\<rparr>)"
    using hit_check_pass_lookup [OF wf pk ppass] hit_check_wf [OF wf]
    by (simp_all add: P_def)
  have sk': "ntt_lookup (snd P) (site_key r) = Some es"
    using sk ne by (simp add: P(3))
  have S: "fst S = OK" "ntt_wf (snd S)"
    "ntt_lookup (snd S) = (ntt_lookup (snd P))
       (site_key r \<mapsto> es\<lparr>node_timestamp := now env,
          node_count := (if site_interval cfg \<le> now env - node_timestamp es then 0 else node_count es) + 1\<rparr>)"
    using hit_check_pass_lookup [OF P(2) sk' spass] hit_check_wf [OF P(2)] P(1)
    by (simp_all add: S_def)
  have "access_checker env cfg r = hit_stats env cfg r ntt"
    by (rule access_checker_not_held [OF act nwl on_hold_lookup_None [OF ip]])
  also have "\<dots> = (fst S, cfg\<lparr>hit_list := Some (snd S)\<rparr>)"
    by (rule hit_stats_counted [OF nuri P_def S_def])
  finally show ?thesis using S P(3) by auto
qed

text \<open>A request that finds its page key within the interval and at the threshold.\<close>

lemma denied_hit_step:
  assumes act: "enabled cfg \<noteq> 0" "prev_is_null r" "main_is_null r" "hit_list cfg = Some ntt"
    and nwl: "\<not> is_whitelisted (strdup_ok env) (useragent_ip r) cfg"
    and nuri: "\<not> is_uri_whitelisted (match_data_ok env) (uri r) cfg"
    and ip: "ntt_lookup ntt (useragent_ip r) = None"
    and pk: "ntt_lookup ntt (page_key r) = Some ep"
    and deny: "now env - node_timestamp ep < page_interval cfg" "ucast (page_count cfg) \<le> node_count ep"
  shows "fst (access_checker env cfg r) = http_reply cfg"
proof -
  define P where "P = hit_check (page_node_ok env) (useragent_ip r) (page_key r)
               (page_interval cfg) (page_count cfg) (now env) (http_reply cfg) (OK, ntt)"
  define S where "S = hit_check (site_node_ok env) (useragent_ip r) (site_key r)
               (site_interval cfg) (site_count cfg) (now env) (http_reply cfg) (fst P, snd P)"
  have "fst P = http_reply cfg"
    unfolding P_def by (rule hit_check_deny_ret [OF pk deny])
  then have "fst S = http_reply cfg"
    using hit_check_fst_cases [of "site_node_ok env" "useragent_ip r" "site_key r"
        "site_interval cfg" "site_count cfg" "now env" "http_reply cfg" "fst P" "snd P"]
    by (auto simp: S_def)
  moreover have "access_checker env cfg r = hit_stats env cfg r ntt"
    by (rule access_checker_not_held [OF act nwl on_hold_lookup_None [OF ip]])
  moreover have "hit_stats env cfg r ntt = (fst S, cfg\<lparr>hit_list := Some (snd S)\<rparr>)"
    by (rule hit_stats_counted [OF nuri P_def S_def])
  ultimately show ?thesis by simp
qed

subsection \<open>The first window of a key and the later ones\<close>


lemma ex_serve3:
  "fst (serve (ex_cfg (ntt_create True True 50))
          [(ex_env 0, ex_req), (ex_env 0, ex_req), (ex_env 0, ex_req)]) = [OK, OK, OK]"
  by code_simp

text \<open>
  Claim C1. With a page count of 2 and a page interval of 1, the third of three requests at
  time 0 is denied. On the table that \<^verbatim>\<open>ntt_create\<close> makes, where the address \<open>1.2.3.4\<close> is
  neither whitelisted nor on hold, \<^verbatim>\<open>access_checker\<close> answers all three requests for
  \<open>/x\<close> at time 0 with \<^verbatim>\<open>OK\<close>, which is not the reply status 403 of the configuration:
  the request that creates the entry is not counted.
\<close>

theorem first_window_third_hit_passes:
  "page_count (ex_cfg (ntt_create True True 50)) = 2
   \<and> page_interval (ex_cfg (ntt_create True True 50)) = 1
   \<and> \<not> is_whitelisted True ''1.2.3.4'' (ex_cfg (ntt_create True True 50))
   \<and> ntt_find (ntt_create True True 50) ''1.2.3.4'' = None
   \<and> fst (serve (ex_cfg (ntt_create True True 50))
          [(ex_env 0, ex_req), (ex_env 0, ex_req), (ex_env 0, ex_req)]) = [OK, OK, OK]
   \<and> http_reply (ex_cfg (ntt_create True True 50)) \<noteq> OK"
proof -
  have "\<not> is_whitelisted True ''1.2.3.4'' (ex_cfg (ntt_create True True 50))"
    by code_simp
  moreover have "ntt_find (ntt_create True True 50) ''1.2.3.4'' = None"
    by code_simp
  ultimately show ?thesis
    using ex_serve3 by (simp add: ex_cfg_def OK_def HTTP_FORBIDDEN_def)
qed

text \<open>
  The first window of a key, in general: with a page count of 2 and a page interval of 1 (and
  a site count above 1), four top-level requests for the same path from the same address, all
  at the same time, get the verdicts pass, pass, pass, deny, when the table holds neither the
  page key nor the site key of the request and has room and memory for both. The first
  request only makes the entries, with the count 0, so the count reaches the threshold 2 with
  the third request and the fourth is the first to be denied.
\<close>

lemma first_window_fourth_hit_denied:
  assumes act: "enabled cfg \<noteq> 0" "prev_is_null r" "main_is_null r" "hit_list cfg = Some ntt"
    and wf: "ntt_wf ntt"
    and page: "page_count cfg = 2" "page_interval cfg = 1"
    and site: "1 < site_count cfg"
    and nwl: "\<not> is_whitelisted True (useragent_ip r) cfg"
    and nuri: "\<not> is_uri_whitelisted (match_data_ok env) (uri r) cfg"
    and keys: "page_key r \<noteq> site_key r" "useragent_ip r \<noteq> page_key r" "useragent_ip r \<noteq> site_key r"
      "page_key r \<notin> set (whitelist_keys (useragent_ip r))"
      "site_key r \<notin> set (whitelist_keys (useragent_ip r))"
    and absent: "ntt_find (Some ntt) (useragent_ip r) = None"
      "ntt_find (Some ntt) (page_key r) = None" "ntt_find (Some ntt) (site_key r) = None"
    and mem: "page_node_ok env" "site_node_ok env"
    and room: "ntt_items ntt \<noteq> SIZE_MAX" "ntt_items ntt + 1 \<noteq> SIZE_MAX"
  shows "fst (serve cfg [(env, r), (env, r), (env, r), (env, r)]) = [OK, OK, OK, http_reply cfg]"
proof -
  let ?ip = "useragent_ip r" and ?pk = "page_key r" and ?sk = "site_key r" and ?t = "now env"
  let ?N = "\<lambda>k c. \<lparr>node_key = k, node_timestamp = ?t, node_count = c\<rparr>"
  from absent have l0: "ntt_lookup ntt ?ip = None" "ntt_lookup ntt ?pk = None"
    "ntt_lookup ntt ?sk = None" by (simp_all add: ntt_lookup_def)
  from nwl act(4) have w0: "\<forall>k \<in> set (whitelist_keys ?ip). ntt_lookup ntt k = None"
    by (simp add: is_whitelisted_lookup)
  have sc1: "\<not> ucast (site_count cfg) \<le> (1 :: size_t)"
    using site by (simp add: ucast_count_le word_less_nat_alt)
  have sc0: "ucast (site_count cfg) \<noteq> (0 :: size_t)"
    using sc1 by auto
  note sc = sc0 sc1
  have nwl0: "\<not> is_whitelisted (strdup_ok env) ?ip cfg"
    using nwl by (simp add: is_whitelisted_iff)
  \<comment> \<open>what holds of every later table: the same entries but for the two keys\<close>
  have later: "enabled (cfg\<lparr>hit_list := Some n'\<rparr>) \<noteq> 0"
      "hit_list (cfg\<lparr>hit_list := Some n'\<rparr>) = Some n'"
      "\<not> is_whitelisted (strdup_ok env) ?ip (cfg\<lparr>hit_list := Some n'\<rparr>)"
      "\<not> is_uri_whitelisted (match_data_ok env) (uri r) (cfg\<lparr>hit_list := Some n'\<rparr>)"
      "ntt_lookup n' ?ip = None"
    if "ntt_lookup n' = (ntt_lookup ntt)(?pk \<mapsto> a, ?sk \<mapsto> b)" for n' a b
    using that act(1) nuri keys l0(1) w0
    by (auto simp: is_whitelisted_lookup)
  have two: "\<not> (2 :: size_t) \<le> 0" "\<not> (2 :: size_t) \<le> 1" "(2 :: size_t) \<le> 2"
    by (simp_all add: word_le_nat_alt)
  \<comment> \<open>the first request\<close>
  obtain n1 where s1: "access_checker env cfg r = (OK, cfg\<lparr>hit_list := Some n1\<rparr>)"
    and wf1: "ntt_wf n1"
    and l1: "ntt_lookup n1 = (ntt_lookup ntt)(?pk \<mapsto> ?N ?pk 0, ?sk \<mapsto> ?N ?sk 0)"
    using first_hit_step [OF act wf nwl0 nuri keys(1) l0 mem room] by blast
  let ?c1 = "cfg\<lparr>hit_list := Some n1\<rparr>"
  note c1 = later [OF l1]
  have p1: "ntt_lookup n1 ?pk = Some (?N ?pk 0)" and q1: "ntt_lookup n1 ?sk = Some (?N ?sk 0)"
    using keys(1) by (simp_all add: l1)
  \<comment> \<open>the second request\<close>
  have pp1: "\<not> (?t - node_timestamp (?N ?pk 0) < page_interval ?c1
               \<and> ucast (page_count ?c1) \<le> node_count (?N ?pk 0))"
    using two by (simp add: page)
  have sp1: "\<not> (?t - node_timestamp (?N ?sk 0) < site_interval ?c1
               \<and> ucast (site_count ?c1) \<le> node_count (?N ?sk 0))"
    using sc0 by simp
  obtain n2 where s2: "access_checker env ?c1 r = (OK, ?c1\<lparr>hit_list := Some n2\<rparr>)"
    and wf2: "ntt_wf n2"
    and l2: "ntt_lookup n2 = (ntt_lookup ntt)(?pk \<mapsto> ?N ?pk 1, ?sk \<mapsto> ?N ?sk 1)"
    using counted_hit_step [OF c1(1) act(2,3) c1(2) wf1 c1(3,4) keys(1) c1(5) p1 q1 pp1 sp1]
    by (auto simp: l1 page(2))
  let ?c2 = "cfg\<lparr>hit_list := Some n2\<rparr>"
  note c2 = later [OF l2]
  have p2: "ntt_lookup n2 ?pk = Some (?N ?pk 1)" and q2: "ntt_lookup n2 ?sk = Some (?N ?sk 1)"
    using keys(1) by (simp_all add: l2)
  \<comment> \<open>the third request\<close>
  have pp2: "\<not> (?t - node_timestamp (?N ?pk 1) < page_interval ?c2
               \<and> ucast (page_count ?c2) \<le> node_count (?N ?pk 1))"
    using two by (simp add: page)
  have sp2: "\<not> (?t - node_timestamp (?N ?sk 1) < site_interval ?c2
               \<and> ucast (site_count ?c2) \<le> node_count (?N ?sk 1))"
    using sc1 by simp
  obtain n3 where s3: "access_checker env ?c2 r = (OK, ?c2\<lparr>hit_list := Some n3\<rparr>)"
    and wf3: "ntt_wf n3"
    and l3: "ntt_lookup n3 = (ntt_lookup ntt)(?pk \<mapsto> ?N ?pk 2,
               ?sk \<mapsto> ?N ?sk ((if site_interval cfg \<le> 0 then 0 else 1) + 1))"
    using counted_hit_step [OF c2(1) act(2,3) c2(2) wf2 c2(3,4) keys(1) c2(5) p2 q2 pp2 sp2]
    by (auto simp: l2 page(2))
  let ?c3 = "cfg\<lparr>hit_list := Some n3\<rparr>"
  note c3 = later [OF l3]
  have p3: "ntt_lookup n3 ?pk = Some (?N ?pk 2)"
    using keys(1) by (simp add: l3)
  \<comment> \<open>the fourth request\<close>
  have d3: "?t - node_timestamp (?N ?pk 2) < page_interval ?c3"
    "ucast (page_count ?c3) \<le> node_count (?N ?pk 2)"
    by (simp_all add: page)
  have s4: "fst (access_checker env ?c3 r) = http_reply cfg"
    using denied_hit_step [OF c3(1) act(2,3) c3(2,3,4,5) p3 d3] by simp
  from s1 s2 s3 s4 show ?thesis by (simp add: split_beta)
qed

lemma create_50: "ntt_create True True 50 = Some empty_ntt"
  by (simp add: ntt_create_def create_loop_50 ntt_prime_list_def empty_ntt_def)

text \<open>The scenario of the specification, with a fourth request.\<close>

lemma scenario_fourth_hit_denied:
  "fst (serve (ex_cfg (ntt_create True True 50))
          [(ex_env 0, ex_req), (ex_env 0, ex_req), (ex_env 0, ex_req), (ex_env 0, ex_req)])
     = [OK, OK, OK, HTTP_FORBIDDEN]"
proof -
  let ?cfg = "ex_cfg (Some empty_ntt)"
  have act: "enabled ?cfg \<noteq> 0" "prev_is_null ex_req" "main_is_null ex_req"
    "hit_list ?cfg = Some empty_ntt"
    by (simp_all add: ex_cfg_def ex_req_def)
  have wf: "ntt_wf empty_ntt" by (simp add: ntt_wf_def empty_ntt_def)
  have page: "page_count ?cfg = 2" "page_interval ?cfg = 1"
    and site: "1 < site_count ?cfg"
    by (simp_all add: ex_cfg_def word_less_nat_alt)
  have nwl: "\<not> is_whitelisted True (useragent_ip ex_req) ?cfg"
    by (simp add: is_whitelisted_iff empty_ntt_find ex_cfg_def)
  have nuri: "\<not> is_uri_whitelisted (match_data_ok (ex_env 0)) (uri ex_req) ?cfg"
    by (simp add: is_uri_whitelisted_def ex_cfg_def)
  have keys: "page_key ex_req \<noteq> site_key ex_req" "useragent_ip ex_req \<noteq> page_key ex_req"
    "useragent_ip ex_req \<noteq> site_key ex_req"
    "page_key ex_req \<notin> set (whitelist_keys (useragent_ip ex_req))"
    "site_key ex_req \<notin> set (whitelist_keys (useragent_ip ex_req))"
    by (simp_all add: ex_req_keys whitelist_keys_def octet_def snprintf_def)
  have absent: "ntt_find (Some empty_ntt) (useragent_ip ex_req) = None"
    "ntt_find (Some empty_ntt) (page_key ex_req) = None"
    "ntt_find (Some empty_ntt) (site_key ex_req) = None"
    by (simp_all add: empty_ntt_find)
  have mem: "page_node_ok (ex_env 0)" "site_node_ok (ex_env 0)"
    by (simp_all add: ex_env_def)
  have room: "ntt_items empty_ntt \<noteq> SIZE_MAX" "ntt_items empty_ntt + 1 \<noteq> SIZE_MAX"
    by (simp_all add: empty_ntt_def SIZE_MAX_def)
  from first_window_fourth_hit_denied [OF act wf page site nwl nuri keys absent mem room]
  show ?thesis by (simp add: create_50 ex_cfg_def)
qed

text \<open>
  A later window of the same key: when the page and site entries exist and their windows have
  run out, the first request resets the counts and counts itself, and the third request at
  that time is the one denied.
\<close>

lemma later_window_third_hit_denied:
  assumes act: "enabled cfg \<noteq> 0" "prev_is_null r" "main_is_null r" "hit_list cfg = Some ntt"
    and wf: "ntt_wf ntt"
    and page: "page_count cfg = 2" "page_interval cfg = 1"
    and site: "1 < site_count cfg"
    and nwl: "\<not> is_whitelisted True (useragent_ip r) cfg"
    and nuri: "\<not> is_uri_whitelisted (match_data_ok env) (uri r) cfg"
    and keys: "page_key r \<noteq> site_key r" "useragent_ip r \<noteq> page_key r" "useragent_ip r \<noteq> site_key r"
      "page_key r \<notin> set (whitelist_keys (useragent_ip r))"
      "site_key r \<notin> set (whitelist_keys (useragent_ip r))"
    and ip: "ntt_find (Some ntt) (useragent_ip r) = None"
    and pk: "ntt_find (Some ntt) (page_key r) = Some p"
      "page_interval cfg \<le> now env - node_timestamp (node_at ntt p)"
    and sk: "ntt_find (Some ntt) (site_key r) = Some s"
      "site_interval cfg \<le> now env - node_timestamp (node_at ntt s)"
  shows "fst (serve cfg [(env, r), (env, r), (env, r)]) = [OK, OK, http_reply cfg]"
proof -
  let ?ip = "useragent_ip r" and ?pk = "page_key r" and ?sk = "site_key r" and ?t = "now env"
  let ?N = "\<lambda>k c. \<lparr>node_key = k, node_timestamp = ?t, node_count = c\<rparr>"
  from ip have l0: "ntt_lookup ntt ?ip = None" by (simp add: ntt_lookup_def)
  from pk(1) have p0: "ntt_lookup ntt ?pk = Some (node_at ntt p)"
    and kp: "node_key (node_at ntt p) = ?pk"
    using find_in_valid(2) [OF wf, of ?pk p] by (simp_all add: ntt_lookup_def)
  from sk(1) have q0: "ntt_lookup ntt ?sk = Some (node_at ntt s)"
    and ks: "node_key (node_at ntt s) = ?sk"
    using find_in_valid(2) [OF wf, of ?sk s] by (simp_all add: ntt_lookup_def)
  from nwl act(4) have w0: "\<forall>k \<in> set (whitelist_keys ?ip). ntt_lookup ntt k = None"
    by (simp add: is_whitelisted_lookup)
  have sc1: "\<not> ucast (site_count cfg) \<le> (1 :: size_t)"
    using site by (simp add: ucast_count_le word_less_nat_alt)
  have nwl0: "\<not> is_whitelisted (strdup_ok env) ?ip cfg"
    using nwl by (simp add: is_whitelisted_iff)
  have later: "enabled (cfg\<lparr>hit_list := Some n'\<rparr>) \<noteq> 0"
      "hit_list (cfg\<lparr>hit_list := Some n'\<rparr>) = Some n'"
      "\<not> is_whitelisted (strdup_ok env) ?ip (cfg\<lparr>hit_list := Some n'\<rparr>)"
      "\<not> is_uri_whitelisted (match_data_ok env) (uri r) (cfg\<lparr>hit_list := Some n'\<rparr>)"
      "ntt_lookup n' ?ip = None"
    if "ntt_lookup n' = (ntt_lookup ntt)(?pk \<mapsto> a, ?sk \<mapsto> b)" for n' a b
    using that act(1) nuri keys l0 w0
    by (auto simp: is_whitelisted_lookup)
  have two: "\<not> (2 :: size_t) \<le> 1" "(2 :: size_t) \<le> 2"
    by (simp_all add: word_le_nat_alt)
  \<comment> \<open>the first request: both windows have run out\<close>
  have pp0: "\<not> (?t - node_timestamp (node_at ntt p) < page_interval cfg
               \<and> ucast (page_count cfg) \<le> node_count (node_at ntt p))"
    using pk(2) by simp
  have sp0: "\<not> (?t - node_timestamp (node_at ntt s) < site_interval cfg
               \<and> ucast (site_count cfg) \<le> node_count (node_at ntt s))"
    using sk(2) by simp
  have e1p: "node_at ntt p\<lparr>node_timestamp := ?t, node_count := 1\<rparr> = ?N ?pk 1"
    using kp by (cases "node_at ntt p") simp
  have e1s: "node_at ntt s\<lparr>node_timestamp := ?t, node_count := 1\<rparr> = ?N ?sk 1"
    using ks by (cases "node_at ntt s") simp
  note e1 = e1p e1s
  obtain n1 where s1: "access_checker env cfg r = (OK, cfg\<lparr>hit_list := Some n1\<rparr>)"
    and wf1: "ntt_wf n1"
    and l1: "ntt_lookup n1 = (ntt_lookup ntt)(?pk \<mapsto> ?N ?pk 1, ?sk \<mapsto> ?N ?sk 1)"
    using counted_hit_step [OF act wf nwl0 nuri keys(1) l0 p0 q0 pp0 sp0] pk(2) sk(2) e1
    by auto
  let ?c1 = "cfg\<lparr>hit_list := Some n1\<rparr>"
  note c1 = later [OF l1]
  have p1: "ntt_lookup n1 ?pk = Some (?N ?pk 1)" and q1: "ntt_lookup n1 ?sk = Some (?N ?sk 1)"
    using keys(1) by (simp_all add: l1)
  \<comment> \<open>the second request\<close>
  have pp1: "\<not> (?t - node_timestamp (?N ?pk 1) < page_interval ?c1
               \<and> ucast (page_count ?c1) \<le> node_count (?N ?pk 1))"
    using two by (simp add: page)
  have sp1: "\<not> (?t - node_timestamp (?N ?sk 1) < site_interval ?c1
               \<and> ucast (site_count ?c1) \<le> node_count (?N ?sk 1))"
    using sc1 by simp
  obtain n2 where s2: "access_checker env ?c1 r = (OK, ?c1\<lparr>hit_list := Some n2\<rparr>)"
    and wf2: "ntt_wf n2"
    and l2: "ntt_lookup n2 = (ntt_lookup ntt)(?pk \<mapsto> ?N ?pk 2,
               ?sk \<mapsto> ?N ?sk ((if site_interval cfg \<le> 0 then 0 else 1) + 1))"
    using counted_hit_step [OF c1(1) act(2,3) c1(2) wf1 c1(3,4) keys(1) c1(5) p1 q1 pp1 sp1]
    by (auto simp: l1 page(2))
  let ?c2 = "cfg\<lparr>hit_list := Some n2\<rparr>"
  note c2 = later [OF l2]
  have p2: "ntt_lookup n2 ?pk = Some (?N ?pk 2)"
    using keys(1) by (simp add: l2)
  \<comment> \<open>the third request\<close>
  have d2: "?t - node_timestamp (?N ?pk 2) < page_interval ?c2"
    "ucast (page_count ?c2) \<le> node_count (?N ?pk 2)"
    by (simp_all add: page)
  have s3: "fst (access_checker env ?c2 r) = http_reply cfg"
    using denied_hit_step [OF c2(1) act(2,3) c2(2,3,4,5) p2 d2] by simp
  from s1 s2 s3 show ?thesis by (simp add: split_beta)
qed

end
